(* ===== verification/Prelude.thy ===== *)
theory Prelude
  imports Main "HOL-Library.Sublist"
begin

text \<open>
  Shared vocabulary of the development: the outcome type of C++ code that may throw or run
  into undefined behaviour, the width of \<^verbatim>\<open>int\<close>, and the operations of
  \<^verbatim>\<open>std::string\<close>, \<^verbatim>\<open>std::stoi\<close>, \<^verbatim>\<open>std::to_string\<close> and
  \<^verbatim>\<open>std::getline\<close> that the sources under \<^verbatim>\<open>src/\<close> call.

  A position returned by a \<^verbatim>\<open>find\<close> is an option: \<open>None\<close> is
  \<^verbatim>\<open>std::string::npos\<close>. Where the code computes with such a position,
  \<^verbatim>\<open>npos + 1\<close> wraps to 0 (function \<open>pos_succ\<close>) and a count
  \<^verbatim>\<open>npos - i - 1\<close> exceeds the length of every string, so that the substring runs to
  its end (function \<open>pos_count\<close>).
\<close>

named_theorems string_simps \<open>facts on the string operations that component proofs rewrite with\<close>
named_theorems result_elims \<open>eliminations for results that are known to be regular\<close>

section \<open>Outcomes of C++ code\<close>

datatype cpp_error =
    Out_of_range
  | Invalid_argument
  | Filesystem_error
  | Mail_exception
  | System_error
  | Undefined_behaviour

type_synonym 'a result = "cpp_error + 'a"

definition ebind :: "'a result \<Rightarrow> ('a \<Rightarrow> 'b result) \<Rightarrow> 'b result" where
  "ebind r f = (case r of Inl e \<Rightarrow> Inl e | Inr x \<Rightarrow> f x)"

lemma ebind_simps [simp]:
  "ebind (Inl e) f = Inl e"
  "ebind (Inr x) f = f x"
  by (simp_all add: ebind_def)

lemma ebind_eq_Inr_iff: "ebind r f = Inr y \<longleftrightarrow> (\<exists>x. r = Inr x \<and> f x = Inr y)"
  by (cases r) simp_all

lemma ebind_eq_InrE [result_elims]:
  assumes "ebind r f = Inr y"
  obtains x where "r = Inr x" and "f x = Inr y"
  using assms by (auto simp: ebind_eq_Inr_iff)

lemma ebind_cong [fundef_cong]:
  "r = r' \<Longrightarrow> (\<And>x. r' = Inr x \<Longrightarrow> f x = f' x) \<Longrightarrow> ebind r f = ebind r' f'"
  by (cases r') simp_all

lemma ebind_assoc: "ebind (ebind r k) l = ebind r (\<lambda>x. ebind (k x) l)"
  by (cases r) simp_all

section \<open>The width of int\<close>

definition int_min :: int where
  "int_min = - (2 ^ 31)"

definition int_max :: int where
  "int_max = 2 ^ 31 - 1"

definition in_int :: "int \<Rightarrow> bool" where
  "in_int i \<longleftrightarrow> int_min \<le> i \<and> i \<le> int_max"

text \<open>Signed arithmetic that leaves the range of \<^verbatim>\<open>int\<close> is undefined behaviour.\<close>

definition check_int :: "int \<Rightarrow> int result" where
  "check_int i = (if in_int i then Inr i else Inl Undefined_behaviour)"

lemma in_int_code: "in_int i \<longleftrightarrow> -2147483648 \<le> i \<and> i \<le> 2147483647"
  by (simp add: in_int_def int_min_def int_max_def)

lemma check_int_Inr [simp]: "in_int i \<Longrightarrow> check_int i = Inr i"
  by (simp add: check_int_def)

lemma check_int_eq_Inr_iff: "check_int i = Inr j \<longleftrightarrow> j = i \<and> in_int i"
  by (auto simp: check_int_def)

section \<open>Searching a string\<close>

fun find_char :: "char \<Rightarrow> string \<Rightarrow> nat option" where
  "find_char c [] = None"
| "find_char c (x # xs) = (if x = c then Some 0 else map_option Suc (find_char c xs))"

definition find_char_from :: "char \<Rightarrow> string \<Rightarrow> nat \<Rightarrow> nat option" where
  "find_char_from c s pos = map_option (\<lambda>i. pos + i) (find_char c (drop pos s))"

fun rfind_char :: "char \<Rightarrow> string \<Rightarrow> nat option" where
  "rfind_char c [] = None"
| "rfind_char c (x # xs) =
     (case rfind_char c xs of Some i \<Rightarrow> Some (Suc i) | None \<Rightarrow> if x = c then Some 0 else None)"

fun find_last_not_of :: "char \<Rightarrow> string \<Rightarrow> nat option" where
  "find_last_not_of c [] = None"
| "find_last_not_of c (x # xs) =
     (case find_last_not_of c xs of
        Some i \<Rightarrow> Some (Suc i)
      | None \<Rightarrow> if x \<noteq> c then Some 0 else None)"

definition substr :: "string \<Rightarrow> nat \<Rightarrow> nat option \<Rightarrow> string result" where
  "substr s pos cnt =
     (if length s < pos then Inl Out_of_range
      else Inr (case cnt of None \<Rightarrow> drop pos s | Some n \<Rightarrow> take n (drop pos s)))"

definition pos_succ :: "nat option \<Rightarrow> nat" where
  "pos_succ p = (case p of None \<Rightarrow> 0 | Some i \<Rightarrow> Suc i)"

definition pos_count :: "nat option \<Rightarrow> nat \<Rightarrow> nat option" where
  "pos_count p i = (case p of None \<Rightarrow> None | Some j \<Rightarrow> Some (j - i - 1))"

lemma find_char_None_iff [string_simps]: "find_char c s = None \<longleftrightarrow> c \<notin> set s"
  by (induction s) auto

lemma find_char_append_notin [string_simps]:
  "c \<notin> set s \<Longrightarrow> find_char c (s @ c # t) = Some (length s)"
  by (induction s) auto

lemma find_char_SomeD:
  assumes "find_char c s = Some i"
  shows "i < length s" and "s ! i = c" and "c \<notin> set (take i s)"
proof -
  have "i < length s \<and> s ! i = c \<and> c \<notin> set (take i s)"
    using assms
  proof (induction s arbitrary: i)
    case (Cons x s)
    then show ?case by (cases i) (auto split: if_splits)
  qed simp
  then show "i < length s" and "s ! i = c" and "c \<notin> set (take i s)" by auto
qed

lemma find_char_from_bounds:
  assumes "find_char_from c s p = Some e"
  shows "p \<le> e" and "e < length s"
proof -
  from assms obtain i where "find_char c (drop p s) = Some i" and e: "e = p + i"
    by (auto simp: find_char_from_def)
  from find_char_SomeD(1) [OF this(1)] show "e < length s" by (simp add: e)
  show "p \<le> e" by (simp add: e)
qed

lemma rfind_char_None_iff [string_simps]: "rfind_char c s = None \<longleftrightarrow> c \<notin> set s"
  by (induction s) (auto split: option.splits)

lemma rfind_char_SomeD:
  assumes "rfind_char c s = Some i"
  shows "i < length s" and "s ! i = c" and "c \<notin> set (drop (Suc i) s)"
proof -
  have "i < length s \<and> s ! i = c \<and> c \<notin> set (drop (Suc i) s)"
    using assms
  proof (induction s arbitrary: i)
    case (Cons x s)
    then show ?case
      by (cases "rfind_char c s") (auto split: if_splits simp: rfind_char_None_iff)
  qed simp
  then show "i < length s" and "s ! i = c" and "c \<notin> set (drop (Suc i) s)" by auto
qed

lemma rfind_char_append_notin [string_simps]:
  "c \<notin> set t \<Longrightarrow> rfind_char c (s @ c # t) = Some (length s)"
  by (induction s) (simp_all add: iffD2 [OF rfind_char_None_iff])

lemma substr_ok [simp]: "pos \<le> length s \<Longrightarrow>
  substr s pos cnt = Inr (case cnt of None \<Rightarrow> drop pos s | Some n \<Rightarrow> take n (drop pos s))"
  by (simp add: substr_def)

lemma pos_succ_simps [simp]: "pos_succ None = 0" "pos_succ (Some i) = Suc i"
  by (simp_all add: pos_succ_def)

lemma pos_count_simps [simp]: "pos_count None i = None" "pos_count (Some j) i = Some (j - i - 1)"
  by (simp_all add: pos_count_def)


section \<open>Removing trailing slashes\<close>

text \<open>
  The idiom \<^verbatim>\<open>p = s.find_last_not_of('/'); if (p != npos) s = s.substr(0, p + 1)\<close>,
  used by the config parser and by the handlers.
\<close>

definition trim_slashes :: "string \<Rightarrow> string" where
  "trim_slashes s =
     (case find_last_not_of CHR ''/'' s of Some p \<Rightarrow> take (p + 1) s | None \<Rightarrow> s)"

lemma find_last_not_of_None_iff: "find_last_not_of c s = None \<longleftrightarrow> set s \<subseteq> {c}"
  by (induction s) (auto split: option.splits)

lemma find_last_not_of_snoc:
  "find_last_not_of c (s @ [x]) = (if x \<noteq> c then Some (length s) else find_last_not_of c s)"
  by (induction s) (auto split: option.splits)

lemma trim_slashes_Nil [simp]: "trim_slashes [] = []"
  by (simp add: trim_slashes_def)

lemma trim_slashes_keep: "x \<noteq> CHR ''/'' \<Longrightarrow> trim_slashes (s @ [x]) = s @ [x]"
  by (simp add: trim_slashes_def find_last_not_of_snoc)

lemma find_last_not_of_less: "find_last_not_of c s = Some i \<Longrightarrow> i < length s"
  by (induction s arbitrary: i) (auto split: option.splits if_splits)

lemma trim_slashes_drop:
  assumes "\<not> set s \<subseteq> {CHR ''/''}"
  shows "trim_slashes (s @ [CHR ''/'']) = trim_slashes s"
proof -
  from assms obtain i where i: "find_last_not_of CHR ''/'' s = Some i"
    by (metis find_last_not_of_None_iff option.exhaust)
  with find_last_not_of_less [OF i] show ?thesis
    by (simp add: trim_slashes_def find_last_not_of_snoc)
qed

lemma trim_slashes_cases:
  obtains (all) "set s \<subseteq> {CHR ''/''}" and "trim_slashes s = s"
  | (stop) a x b where "s = a @ x # b" and "x \<noteq> CHR ''/''" and "set b \<subseteq> {CHR ''/''}"
      and "trim_slashes s = a @ [x]"
proof (induction s arbitrary: thesis rule: rev_induct)
  case Nil
  then show ?case by simp
next
  case (snoc y s)
  show ?case
  proof (cases "y = CHR ''/''")
    case False
    then show ?thesis using snoc.prems(2) [of s y "[]"] by (simp add: trim_slashes_keep)
  next
    case y: True
    show ?thesis
    proof (rule snoc.IH)
      assume "set s \<subseteq> {CHR ''/''}" "trim_slashes s = s"
      then have "set (s @ [y]) \<subseteq> {CHR ''/''}" using y by simp
      moreover from this have "trim_slashes (s @ [y]) = s @ [y]"
        by (simp only: trim_slashes_def find_last_not_of_None_iff [symmetric] option.case)
      ultimately show ?thesis by (rule snoc.prems(1))
    next
      fix a x b
      assume s: "s = a @ x # b" "x \<noteq> CHR ''/''" "set b \<subseteq> {CHR ''/''}" "trim_slashes s = a @ [x]"
      then have "trim_slashes (s @ [y]) = a @ [x]"
        using trim_slashes_drop [of s] y by auto
      then show ?thesis using snoc.prems(2) [of a x "b @ [y]"] s y by simp
    qed
  qed
qed

lemma trim_slashes_idem [simp]: "trim_slashes (trim_slashes s) = trim_slashes s"
  by (cases rule: trim_slashes_cases [of s]) (simp_all add: trim_slashes_keep)

lemma prefix_trim_slashes: "prefix (trim_slashes s) s"
  by (cases rule: trim_slashes_cases [of s]) simp_all

lemma trim_slashes_all: "set s \<subseteq> {CHR ''/''} \<Longrightarrow> trim_slashes s = s"
  by (simp only: trim_slashes_def find_last_not_of_None_iff [symmetric] option.case)

lemma trim_slashes_covers:
  assumes "trim_slashes a = a"
  shows "prefix a (trim_slashes (a @ r))"
proof (induction r rule: rev_induct)
  case (snoc y r)
  show ?case
  proof (cases "y = CHR ''/''")
    case False
    with trim_slashes_keep [of y "a @ r"] show ?thesis by simp
  next
    case y: True
    show ?thesis
    proof (cases "set (a @ r) \<subseteq> {CHR ''/''}")
      case True
      with y have "trim_slashes (a @ r @ [y]) = a @ r @ [y]" by (intro trim_slashes_all) simp
      then show ?thesis by simp
    next
      case False
      from trim_slashes_drop [OF this] snoc.IH y show ?thesis by simp
    qed
  qed
qed (simp add: assms)

section \<open>Decimal numbers\<close>

definition is_digit :: "char \<Rightarrow> bool" where
  "is_digit c \<longleftrightarrow> 48 \<le> (of_char c :: nat) \<and> (of_char c :: nat) \<le> 57"

definition is_space :: "char \<Rightarrow> bool" where
  "is_space c \<longleftrightarrow> (of_char c :: nat) = 32 \<or> 9 \<le> (of_char c :: nat) \<and> (of_char c :: nat) \<le> 13"

definition digit_val :: "char \<Rightarrow> nat" where
  "digit_val c = of_char c - 48"

definition digit_char :: "nat \<Rightarrow> char" where
  "digit_char n = char_of (48 + n)"

definition digits_val :: "string \<Rightarrow> nat" where
  "digits_val ds = foldl (\<lambda>n c. 10 * n + digit_val c) 0 ds"

fun nat_to_string :: "nat \<Rightarrow> string" where
  "nat_to_string n =
     (if n < 10 then [digit_char n] else nat_to_string (n div 10) @ [digit_char (n mod 10)])"

declare nat_to_string.simps [simp del]

definition to_string :: "int \<Rightarrow> string" where
  "to_string i = (if i < 0 then CHR ''-'' # nat_to_string (nat (- i)) else nat_to_string (nat i))"

text \<open>
  \<^verbatim>\<open>std::stoi\<close> skips white space, reads an optional sign and the longest run of digits and
  ignores the rest; it throws when there is no digit or the value does not fit an
  \<^verbatim>\<open>int\<close>.
\<close>

definition stoi :: "string \<Rightarrow> int result" where
  "stoi s =
     (let t = dropWhile is_space s;
          neg = (case t of c # _ \<Rightarrow> c = CHR ''-'' | [] \<Rightarrow> False);
          u = (case t of c # r \<Rightarrow> if c = CHR ''-'' \<or> c = CHR ''+'' then r else t | [] \<Rightarrow> []);
          ds = takeWhile is_digit u;
          v = (if neg then - int (digits_val ds) else int (digits_val ds))
      in if ds = [] then Inl Invalid_argument
         else if in_int v then Inr v else Inl Out_of_range)"

lemma digit_char_simps [string_simps]:
  "digit_char 0 = CHR ''0''" "digit_char 1 = CHR ''1''" "digit_char (Suc 0) = CHR ''1''"
  "digit_char 2 = CHR ''2''" "digit_char 3 = CHR ''3''" "digit_char 4 = CHR ''4''"
  "digit_char 5 = CHR ''5''" "digit_char 6 = CHR ''6''" "digit_char 7 = CHR ''7''"
  "digit_char 8 = CHR ''8''" "digit_char 9 = CHR ''9''"
  by code_simp+

lemma is_digit_digit_char [simp]: "n < 10 \<Longrightarrow> is_digit (digit_char n)"
  by (simp add: is_digit_def digit_char_def)

lemma digit_val_digit_char [simp]: "n < 10 \<Longrightarrow> digit_val (digit_char n) = n"
  by (simp add: digit_val_def digit_char_def)

lemma digits_val_snoc: "digits_val (ds @ [d]) = 10 * digits_val ds + digit_val d"
  by (simp add: digits_val_def)

lemma nat_to_string_digits: "c \<in> set (nat_to_string n) \<Longrightarrow> is_digit c"
proof (induction n rule: nat_to_string.induct)
  case (1 n)
  then show ?case by (auto simp: nat_to_string.simps [of n] split: if_splits)
qed

lemma nat_to_string_nonempty [simp]: "nat_to_string n \<noteq> []"
  by (subst nat_to_string.simps) simp

lemma digits_val_nat_to_string [simp]: "digits_val (nat_to_string n) = n"
proof (induction n rule: nat_to_string.induct)
  case (1 n)
  then show ?case
    by (cases "n < 10") (simp_all add: nat_to_string.simps [of n] digits_val_snoc, simp add: digits_val_def)
qed

lemma is_digitD:
  assumes "is_digit c"
  shows "\<not> is_space c" and "c \<noteq> CHR ''-''" and "c \<noteq> CHR ''+''"
    and "c \<noteq> CHR ''|''" and "c \<noteq> CHR 0x0A" and "c \<noteq> CHR ''/''"
  using assms by (auto simp: is_digit_def is_space_def)

lemma stoi_digits:
  assumes "ds \<noteq> []" and "\<And>c. c \<in> set ds \<Longrightarrow> is_digit c"
    and "rest = [] \<or> \<not> is_digit (hd rest)" and "in_int (int (digits_val ds))"
  shows "stoi (ds @ rest) = Inr (int (digits_val ds))"
proof -
  from assms(1) obtain d ds' where ds: "ds = d # ds'" by (cases ds) auto
  with assms(2) have d: "is_digit d" by simp
  have "takeWhile is_digit (ds @ rest) = ds"
    using assms(2,3) by (cases rest) (auto simp: takeWhile_append)
  with ds d assms(4) show ?thesis
    by (simp add: stoi_def is_digitD Let_def)
qed

lemma stoi_minus_digits:
  assumes "ds \<noteq> []" and "\<And>c. c \<in> set ds \<Longrightarrow> is_digit c"
    and "in_int (- int (digits_val ds))"
  shows "stoi (CHR ''-'' # ds) = Inr (- int (digits_val ds))"
proof -
  have "takeWhile is_digit ds = ds" using assms(2) by (simp add: takeWhile_eq_all_conv)
  moreover have "\<not> is_space CHR ''-''" by (simp add: is_space_def)
  ultimately show ?thesis
    using assms(1,3) by (simp add: stoi_def Let_def del: takeWhile_eq_all_conv)
qed

lemma stoi_range: "stoi s = Inr i \<Longrightarrow> in_int i"
  by (auto simp: stoi_def Let_def split: if_splits)

lemma stoi_to_string [simp]: "in_int i \<Longrightarrow> stoi (to_string i) = Inr i"
proof (cases "i < 0")
  case True
  assume "in_int i"
  with True show ?thesis
    using stoi_minus_digits [of "nat_to_string (nat (- i))"]
    by (simp add: to_string_def nat_to_string_digits)
next
  case False
  assume "in_int i"
  with False show ?thesis
    using stoi_digits [of "nat_to_string (nat i)" "[]"]
    by (simp add: to_string_def nat_to_string_digits)
qed

lemma to_string_chars: "c \<in> set (to_string i) \<Longrightarrow> is_digit c \<or> c = CHR ''-''"
  by (auto simp: to_string_def nat_to_string_digits split: if_splits)

lemma to_string_nonempty [simp]: "to_string i \<noteq> []"
  by (simp add: to_string_def)

lemma to_string_no_bar [string_simps]:
  "CHR ''|'' \<notin> set (to_string i)" "CHR 0x0A \<notin> set (to_string i)" "CHR ''/'' \<notin> set (to_string i)"
  by (auto dest!: to_string_chars simp: is_digit_def)

section \<open>Splitting\<close>

fun split_on :: "char \<Rightarrow> string \<Rightarrow> string \<Rightarrow> string list" where
  "split_on d acc [] = (if acc = [] then [] else [rev acc])"
| "split_on d acc (c # cs) =
     (if c = d then rev acc # split_on d [] cs else split_on d (c # acc) cs)"

text \<open>\<open>getlines\<close> lists what the loop \<^verbatim>\<open>while (std::getline(in, line))\<close> reads.\<close>

definition getlines :: "string \<Rightarrow> string list" where
  "getlines s = split_on CHR 0x0A [] s"

lemma split_on_field:
  "d \<notin> set f \<Longrightarrow> split_on d acc (f @ d # s) = (rev acc @ f) # split_on d [] s"
  by (induction f arbitrary: acc) auto

lemma split_on_last: "d \<notin> set f \<Longrightarrow> split_on d acc f = (if acc = [] \<and> f = [] then [] else [rev acc @ f])"
  by (induction f arbitrary: acc) auto

lemma split_on_no_delim: "d \<notin> set acc \<Longrightarrow> f \<in> set (split_on d acc s) \<Longrightarrow> d \<notin> set f"
proof (induction s arbitrary: acc)
  case (Cons c s)
  then show ?case
    using Cons.IH [of "[]"] Cons.IH [of "c # acc"] by (auto split: if_splits)
qed (auto split: if_splits)

lemma getlines_Nil [simp]: "getlines [] = []"
  by (simp add: getlines_def)

lemma getlines_line: "CHR 0x0A \<notin> set l \<Longrightarrow> getlines (l @ CHR 0x0A # s) = l # getlines s"
  by (simp add: getlines_def split_on_field)

lemma split_on_append:
  "split_on d acc (s @ d # t) = split_on d acc (s @ [d]) @ split_on d [] t"
  by (induction s arbitrary: acc) auto

lemma getlines_append:
  assumes "s = [] \<or> last s = CHR 0x0A"
  shows "getlines (s @ t) = getlines s @ getlines t"
  using assms
proof (cases s rule: rev_cases)
  case (snoc s' c)
  with assms show ?thesis
    using split_on_append [of "CHR 0x0A" "[]" s' t] by (simp add: getlines_def)
qed simp

end
