(* ===== verification/Http.thy ===== *)
theory Http
  imports Prelude
begin

text \<open>
  The HTTP messages as the handlers see them and the contract of the abstract class
  \<^verbatim>\<open>request_handler\<close> (\<^verbatim>\<open>src/include/request_handler.h\<close>).

  \<^verbatim>\<open>bhttp::request\<close> and \<^verbatim>\<open>bhttp::response\<close> are types of Boost.Beast. Only the
  parts the sources read or write appear: target, method, body and the Cookie field of a
  request; status, body, Content-Length, Content-Type and Set-Cookie of a response.
\<close>

section \<open>Messages\<close>

record user_profile =
  user_id :: int
  username :: string
  email :: string
  login_status :: bool

datatype verb = Verb_get | Verb_post | Verb_put | Verb_delete | Verb_other string

datatype status =
    Status_ok
  | Status_created
  | Status_bad_request
  | Status_unauthorized
  | Status_not_found
  | Status_code nat

fun result_int :: "status \<Rightarrow> nat" where
  "result_int Status_ok = 200"
| "result_int Status_created = 201"
| "result_int Status_bad_request = 400"
| "result_int Status_unauthorized = 401"
| "result_int Status_not_found = 404"
| "result_int (Status_code n) = n"

record request =
  req_method :: verb
  req_target :: string
  req_cookie :: string
  req_body :: string

record response =
  res_result :: status
  res_body :: string
  res_content_length :: "nat option"
  res_content_type :: "string option"
  res_set_cookie :: "string option"

definition new_response :: response where
  "new_response = \<lparr>res_result = Status_ok, res_body = [], res_content_length = None,
     res_content_type = None, res_set_cookie = None\<rparr>"

definition set_result :: "status \<Rightarrow> response \<Rightarrow> response" where
  "set_result st res = res\<lparr>res_result := st\<rparr>"

definition write_body :: "string \<Rightarrow> response \<Rightarrow> response" where
  "write_body s res = res\<lparr>res_body := res_body res @ s\<rparr>"

definition set_content_length :: "response \<Rightarrow> response" where
  "set_content_length res = res\<lparr>res_content_length := Some (length (res_body res))\<rparr>"

definition set_content_type :: "string \<Rightarrow> response \<Rightarrow> response" where
  "set_content_type t res = res\<lparr>res_content_type := Some t\<rparr>"

definition set_cookie_field :: "string \<Rightarrow> response \<Rightarrow> response" where
  "set_cookie_field c res = res\<lparr>res_set_cookie := Some c\<rparr>"

lemmas response_ops = set_result_def write_body_def set_content_length_def
  set_content_type_def set_cookie_field_def

text \<open>
  The block that ends most branches: set the status, append to the body, set
  Content-Length to the size of the body, set Content-Type.
\<close>

definition finish :: "status \<Rightarrow> string \<Rightarrow> string \<Rightarrow> response \<Rightarrow> response" where
  "finish st bdy ctype res =
     set_content_type ctype (set_content_length (write_body bdy (set_result st res)))"

lemma finish_simps [simp]:
  "res_result (finish st b t res) = st"
  "res_body (finish st b t res) = res_body res @ b"
  "res_content_length (finish st b t res) = Some (length (res_body res) + length b)"
  "res_content_type (finish st b t res) = Some t"
  "res_set_cookie (finish st b t res) = res_set_cookie res"
  by (simp_all add: finish_def response_ops)

lemma new_response_simps [simp]:
  "res_result new_response = Status_ok"
  "res_body new_response = []"
  "res_content_length new_response = None"
  "res_content_type new_response = None"
  "res_set_cookie new_response = None"
  by (simp_all add: new_response_def)

section \<open>The contract of a request handler\<close>

text \<open>
  What a call of \<^verbatim>\<open>handle_request\<close> leaves behind: the state after the call, the returned
  status, the response written through the reference parameter and the lines
  \<^verbatim>\<open>log_message_info\<close> wrote.
\<close>

record 's outcome =
  out_state :: 's
  out_status :: status
  out_res :: response
  out_log :: "string list"

definition outcome_of :: "'s \<Rightarrow> response \<Rightarrow> string list \<Rightarrow> 's outcome" where
  "outcome_of s res lg =
     \<lparr>out_state = s, out_status = res_result res, out_res = res, out_log = lg\<rparr>"

lemma outcome_of_simps [simp]:
  "out_state (outcome_of s res lg) = s"
  "out_status (outcome_of s res lg) = res_result res"
  "out_res (outcome_of s res lg) = res"
  "out_log (outcome_of s res lg) = lg"
  by (simp_all add: outcome_of_def)

text \<open>
  A response is framed when its Content-Length, if present, is the size of its body: a
  client that trusts the header reads exactly the body.
\<close>

definition framed :: "response \<Rightarrow> bool" where
  "framed res \<longleftrightarrow> (case res_content_length res of None \<Rightarrow> True | Some n \<Rightarrow> n = length (res_body res))"

lemma framed_simps [simp]:
  "framed new_response"
  "framed (finish st b t res)"
  "framed (set_result st res) = framed res"
  "framed (set_cookie_field c res) = framed res"
  "framed (set_content_type t res) = framed res"
  "framed (set_content_length res)"
  by (simp_all add: framed_def response_ops split: option.split)

locale request_handler =
  fixes handle :: "'s \<Rightarrow> request \<Rightarrow> response \<Rightarrow> 's outcome result"
  assumes status_law: "handle s req res = Inr out \<Longrightarrow> out_status out = res_result (out_res out)"
    and framing_law: "handle s req res = Inr out \<Longrightarrow> framed res \<Longrightarrow> framed (out_res out)"
begin

lemma served_framed: "handle s req new_response = Inr out \<Longrightarrow> framed (out_res out)"
  by (erule framing_law) simp

lemma served_status: "handle s req res = Inr out \<Longrightarrow> result_int (out_status out) = result_int (res_result (out_res out))"
  by (simp add: status_law)

end

end
