(* ===== verification/Reply.thy ===== *)
theory Reply
  imports Http
begin

text \<open>
  The stock replies (\<^verbatim>\<open>src/src/reply.cc\<close>): the HTML page for a status code, empty for a
  code the switch does not list.
\<close>

definition stock_reply :: "int \<Rightarrow> string" where
  "stock_reply err_code =
     (if err_code = 200 then []
      else if err_code = 201 then
        ''<html>'' @ ''<head><title>Created</title></head>'' @
        ''<body><h1>201 Created</h1></body>'' @ ''</html>''
      else if err_code = 202 then
        ''<html>'' @ ''<head><title>Accepted</title></head>'' @
        ''<body><h1>202 Accepted</h1></body>'' @ ''</html>''
      else if err_code = 204 then
        ''<html>'' @ ''<head><title>No Content</title></head>'' @
        ''<body><h1>204 Content</h1></body>'' @ ''</html>''
      else if err_code = 300 then
        ''<html>'' @ ''<head><title>Multiple Choices</title></head>'' @
        ''<body><h1>300 Multiple Choices</h1></body>'' @ ''</html>''
      else if err_code = 301 then
        ''<html>'' @ ''<head><title>Moved Permanently</title></head>'' @
        ''<body><h1>301 Moved Permanently</h1></body>'' @ ''</html>''
      else if err_code = 302 then
        ''<html>'' @ ''<head><title>Moved Temporarily</title></head>'' @
        ''<body><h1>302 Moved Temporarily</h1></body>'' @ ''</html>''
      else if err_code = 304 then
        ''<html>'' @ ''<head><title>Not Modified</title></head>'' @
        ''<body><h1>304 Not Modified</h1></body>'' @ ''</html>''
      else if err_code = 400 then
        ''<html>'' @ ''<head><title>Bad Request</title></head>'' @
        ''<body><h1>400 Bad Request</h1></body>'' @ ''</html>''
      else if err_code = 401 then
        ''<html>'' @ ''<head><title>Unauthorized</title></head>'' @
        ''<body><h1>401 Unauthorized</h1></body>'' @ ''</html>''
      else if err_code = 403 then
        ''<html>'' @ ''<head><title>Forbidden</title></head>'' @
        ''<body><h1>403 Forbidden</h1></body>'' @ ''</html>''
      else if err_code = 404 then
        ''<html>'' @ ''<head><title>Not Found</title></head>'' @
        ''<body><h1>404 Not Found</h1></body>'' @ ''</html>''
      else if err_code = 500 then
        ''<html>'' @ ''<head><title>Internal Server Error</title></head>'' @
        ''<body><h1>500 Internal Server Error</h1></body>'' @ ''</html>''
      else if err_code = 501 then
        ''<html>'' @ ''<head><title>Not Implemented</title></head>'' @
        ''<body><h1>501 Not Implemented</h1></body>'' @ ''</html>''
      else if err_code = 502 then
        ''<html>'' @ ''<head><title>Bad Gateway</title></head>'' @
        ''<body><h1>502 Bad Gateway</h1></body>'' @ ''</html>''
      else if err_code = 503 then
        ''<html>'' @ ''<head><title>Service Unavailable</title></head>'' @
        ''<body><h1>503 Service Unavailable</h1></body>'' @ ''</html>''
      else [])"

definition stock_codes :: "int list" where
  "stock_codes = [201, 202, 204, 300, 301, 302, 304, 400, 401, 403, 404, 500, 501, 502, 503]"

text \<open>The reply is empty exactly for 200 and for the codes that have no case.\<close>

lemma stock_reply_empty_iff: "stock_reply n = [] \<longleftrightarrow> n \<notin> set stock_codes"
  by (simp add: stock_reply_def stock_codes_def)

text \<open>Every page is one complete HTML document.\<close>

lemma stock_reply_html:
  assumes "n \<in> set stock_codes"
  shows "prefix ''<html><head><title>'' (stock_reply n)"
    and "suffix ''</h1></body></html>'' (stock_reply n)"
proof -
  from assms have "n = 201 \<or> n = 202 \<or> n = 204 \<or> n = 300 \<or> n = 301 \<or> n = 302 \<or> n = 304 \<or> n = 400
      \<or> n = 401 \<or> n = 403 \<or> n = 404 \<or> n = 500 \<or> n = 501 \<or> n = 502 \<or> n = 503"
    by (simp add: stock_codes_def)
  then show "prefix ''<html><head><title>'' (stock_reply n)"
    and "suffix ''</h1></body></html>'' (stock_reply n)"
    by (elim disjE; simp add: stock_reply_def suffix_def)+
qed

end
