(* ===== verification/Mime_Types.thy ===== *)
theory Mime_Types
  imports Prelude
begin

text \<open>The table of file extensions (\<^verbatim>\<open>src/src/mime_types.cc\<close>).\<close>

definition mappings :: "(string \<times> string) list" where
  "mappings =
    [(''gif'', ''image/gif''),
     (''htm'', ''text/html''),
     (''html'', ''text/html''),
     (''jpg'', ''image/jpeg''),
     (''jpeg'', ''image/jpeg''),
     (''png'', ''image/png''),
     (''txt'', ''text/plain''),
     (''zip'', ''application/zip'')]"

text \<open>The loop over the table: the first entry whose extension is equal wins.\<close>

fun extension_loop :: "(string \<times> string) list \<Rightarrow> string \<Rightarrow> string" where
  "extension_loop [] extension = ''text/plain''"
| "extension_loop (m # ms) extension =
     (if fst m = extension then snd m else extension_loop ms extension)"

definition extension_to_type :: "string \<Rightarrow> string" where
  "extension_to_type extension = extension_loop mappings extension"

lemma extension_loop_map_of:
  "extension_loop ms e = (case map_of ms e of Some t \<Rightarrow> t | None \<Rightarrow> ''text/plain'')"
  by (induction ms) auto

lemma distinct_extensions: "distinct (map fst mappings)"
  by (simp add: mappings_def)

lemma extension_to_type_iff:
  "extension_to_type e = t \<longleftrightarrow>
     (e, t) \<in> set mappings \<or> e \<notin> fst ` set mappings \<and> t = ''text/plain''"
  using map_of_eq_None_iff [of mappings e] map_of_eq_Some_iff [OF distinct_extensions, of e]
    eq_key_imp_eq_value [OF distinct_extensions, of e]
  by (auto simp: extension_to_type_def extension_loop_map_of split: option.splits)

end
