(* ===== verification/Request_Parser.thy ===== *)
theory Request_Parser
  imports Prelude
begin

text \<open>
  The character-driven HTTP request parser (\<^verbatim>\<open>src/src/request_parser.cc\<close>,
  \<^verbatim>\<open>src/include/request_parser.h\<close>) with the request it fills
  (\<^verbatim>\<open>src/include/request.h\<close>, \<^verbatim>\<open>src/include/header.h\<close>). The state machine is the
  function \<open>consume\<close>, one branch per \<^verbatim>\<open>case\<close> of the source; \<open>parse\<close> is the loop over
  the input range. A read of \<^verbatim>\<open>headers.back()\<close> on an empty vector and an overflow of the
  version numbers are undefined behaviour and appear as \<open>Inl\<close>.
\<close>

section \<open>Data\<close>

record header =
  hd_name :: string
  hd_value :: string

record parsed_request =
  original_req :: string
  pr_method :: string
  pr_uri :: string
  pr_version_major :: int
  pr_version_minor :: int
  headers :: "header list"

datatype parse_result = good | bad | indeterminate

datatype parser_state =
    method_start
  | method_state
  | uri
  | http_version_h
  | http_version_t_1
  | http_version_t_2
  | http_version_p
  | http_version_slash
  | http_version_major_start
  | http_version_major
  | http_version_minor_start
  | http_version_minor
  | expecting_newline_1
  | header_line_start
  | header_lws
  | header_name
  | space_before_header_value
  | header_value
  | expecting_newline_2
  | expecting_newline_3

section \<open>Character classes\<close>

text \<open>A \<^verbatim>\<open>char\<close> argument is sign-extended to \<^verbatim>\<open>int\<close>.\<close>

definition char_int :: "char \<Rightarrow> int" where
  "char_int c = (if (of_char c :: int) < 128 then of_char c else of_char c - 256)"

definition is_char :: "int \<Rightarrow> bool" where
  "is_char c \<longleftrightarrow> c \<ge> 0 \<and> c \<le> 127"

definition is_ctl :: "int \<Rightarrow> bool" where
  "is_ctl c \<longleftrightarrow> (c \<ge> 0 \<and> c \<le> 31) \<or> c = 127"

definition is_tspecial :: "int \<Rightarrow> bool" where
  "is_tspecial c \<longleftrightarrow> c \<in> set (map char_int
     [CHR ''('', CHR '')'', CHR ''<'', CHR ''>'', CHR ''@'', CHR '','', CHR '';'', CHR '':'',
      CHR 0x5C, CHR 0x22, CHR ''/'', CHR ''['', CHR '']'', CHR ''?'', CHR ''='', CHR ''{'',
      CHR ''}'', CHR '' '', CHR 0x09])"

definition parser_is_digit :: "int \<Rightarrow> bool" where
  "parser_is_digit c \<longleftrightarrow> c \<ge> char_int CHR ''0'' \<and> c \<le> char_int CHR ''9''"

text \<open>The condition under which the method and header-name states reject a character.\<close>

definition not_token :: "char \<Rightarrow> bool" where
  "not_token c \<longleftrightarrow> \<not> is_char (char_int c) \<or> is_ctl (char_int c) \<or> is_tspecial (char_int c)"

section \<open>Operations on the request\<close>

text \<open>\<^verbatim>\<open>v * 10 + input - '0'\<close>, each intermediate result an \<^verbatim>\<open>int\<close>.\<close>

definition version_digit :: "int \<Rightarrow> char \<Rightarrow> int result" where
  "version_digit v c =
     ebind (check_int (v * 10)) (\<lambda>a.
     ebind (check_int (a + char_int c)) (\<lambda>b.
     check_int (b - char_int CHR ''0'')))"

definition back_name_push :: "header list \<Rightarrow> char \<Rightarrow> header list result" where
  "back_name_push hs c =
     (if hs = [] then Inl Undefined_behaviour
      else Inr (butlast hs @ [(last hs)\<lparr>hd_name := hd_name (last hs) @ [c]\<rparr>]))"

definition back_value_push :: "header list \<Rightarrow> char \<Rightarrow> header list result" where
  "back_value_push hs c =
     (if hs = [] then Inl Undefined_behaviour
      else Inr (butlast hs @ [(last hs)\<lparr>hd_value := hd_value (last hs) @ [c]\<rparr>]))"

type_synonym consumed = "parse_result \<times> parser_state \<times> parsed_request"

text \<open>The states from \<^verbatim>\<open>header_line_start\<close> on; \<open>req\<close> has recorded the character already.\<close>

definition consume_header :: "parser_state \<Rightarrow> parsed_request \<Rightarrow> char \<Rightarrow> consumed result" where
  "consume_header st req input =
    (let c = char_int input;
         go = (\<lambda>st'. Inr (indeterminate, st', req));
         stop = Inr (bad, st, req)
     in case st of
       header_line_start \<Rightarrow>
         if input = CHR 0x0D then go expecting_newline_3
         else if headers req \<noteq> [] \<and> (input = CHR '' '' \<or> input = CHR 0x09) then go header_lws
         else if not_token input then stop
         else
           ebind (back_name_push (headers req @ [\<lparr>hd_name = [], hd_value = []\<rparr>]) input) (\<lambda>hs.
           Inr (indeterminate, header_name, req\<lparr>headers := hs\<rparr>))
     | header_lws \<Rightarrow>
         if input = CHR 0x0D then go expecting_newline_2
         else if input = CHR '' '' \<or> input = CHR 0x09 then go st
         else if is_ctl c then stop
         else
           ebind (back_value_push (headers req) input) (\<lambda>hs.
           Inr (indeterminate, header_value, req\<lparr>headers := hs\<rparr>))
     | header_name \<Rightarrow>
         if input = CHR '':'' then go space_before_header_value
         else if not_token input then stop
         else
           ebind (back_name_push (headers req) input) (\<lambda>hs.
           Inr (indeterminate, st, req\<lparr>headers := hs\<rparr>))
     | space_before_header_value \<Rightarrow> if input = CHR '' '' then go header_value else stop
     | header_value \<Rightarrow>
         if input = CHR 0x0D then go expecting_newline_2
         else if is_ctl c then stop
         else
           ebind (back_value_push (headers req) input) (\<lambda>hs.
           Inr (indeterminate, st, req\<lparr>headers := hs\<rparr>))
     | expecting_newline_2 \<Rightarrow> if input = CHR 0x0A then go header_line_start else stop
     | expecting_newline_3 \<Rightarrow>
         Inr (if input = CHR 0x0A then good else bad, st, req)
     | _ \<Rightarrow> stop)"

text \<open>The states of the version and of the end of the request line.\<close>

definition consume_version :: "parser_state \<Rightarrow> parsed_request \<Rightarrow> char \<Rightarrow> consumed result" where
  "consume_version st req input =
    (let c = char_int input;
         go = (\<lambda>st'. Inr (indeterminate, st', req));
         stop = Inr (bad, st, req)
     in case st of
       http_version_h \<Rightarrow> if input = CHR ''H'' then go http_version_t_1 else stop
     | http_version_t_1 \<Rightarrow> if input = CHR ''T'' then go http_version_t_2 else stop
     | http_version_t_2 \<Rightarrow> if input = CHR ''T'' then go http_version_p else stop
     | http_version_p \<Rightarrow> if input = CHR ''P'' then go http_version_slash else stop
     | http_version_slash \<Rightarrow>
         if input = CHR ''/'' then
           Inr (indeterminate, http_version_major_start,
                req\<lparr>pr_version_major := 0, pr_version_minor := 0\<rparr>)
         else stop
     | http_version_major_start \<Rightarrow>
         if parser_is_digit c then
           ebind (version_digit (pr_version_major req) input) (\<lambda>v.
           Inr (indeterminate, http_version_major, req\<lparr>pr_version_major := v\<rparr>))
         else stop
     | http_version_major \<Rightarrow>
         if input = CHR ''.'' then go http_version_minor_start
         else if parser_is_digit c then
           ebind (version_digit (pr_version_major req) input) (\<lambda>v.
           Inr (indeterminate, st, req\<lparr>pr_version_major := v\<rparr>))
         else stop
     | http_version_minor_start \<Rightarrow>
         if parser_is_digit c then
           ebind (version_digit (pr_version_minor req) input) (\<lambda>v.
           Inr (indeterminate, http_version_minor, req\<lparr>pr_version_minor := v\<rparr>))
         else stop
     | http_version_minor \<Rightarrow>
         if input = CHR 0x0D then go expecting_newline_1
         else if parser_is_digit c then
           ebind (version_digit (pr_version_minor req) input) (\<lambda>v.
           Inr (indeterminate, st, req\<lparr>pr_version_minor := v\<rparr>))
         else stop
     | expecting_newline_1 \<Rightarrow> if input = CHR 0x0A then go header_line_start else stop
     | _ \<Rightarrow> consume_header st req input)"

definition consume :: "parser_state \<Rightarrow> parsed_request \<Rightarrow> char \<Rightarrow> consumed result" where
  "consume st req0 input =
    (let req = req0\<lparr>original_req := original_req req0 @ [input]\<rparr>;
         c = char_int input;
         go = (\<lambda>st'. Inr (indeterminate, st', req));
         stop = Inr (bad, st, req)
     in case st of
       method_start \<Rightarrow>
         if not_token input then stop
         else Inr (indeterminate, method_state, req\<lparr>pr_method := pr_method req @ [input]\<rparr>)
     | method_state \<Rightarrow>
         if input = CHR '' '' then go uri
         else if not_token input then stop
         else Inr (indeterminate, st, req\<lparr>pr_method := pr_method req @ [input]\<rparr>)
     | uri \<Rightarrow>
         if input = CHR '' '' then go http_version_h
         else if is_ctl c then stop
         else Inr (indeterminate, st, req\<lparr>pr_uri := pr_uri req @ [input]\<rparr>)
     | _ \<Rightarrow> consume_version st req input)"

lemmas consume_defs = consume_def consume_version_def consume_header_def

text \<open>The result with the unread part of the input range.\<close>

type_synonym parsed = "parse_result \<times> string \<times> parser_state \<times> parsed_request"

fun parse :: "parser_state \<Rightarrow> parsed_request \<Rightarrow> string \<Rightarrow> parsed result" where
  "parse st req [] = Inr (indeterminate, [], st, req)"
| "parse st req (x # xs) =
     ebind (consume st req x) (\<lambda>(r, st', req').
       if r \<noteq> indeterminate then Inr (r, xs, st', req') else parse st' req' xs)"

definition reset :: "parser_state \<Rightarrow> parser_state" where
  "reset st = method_start"

text \<open>A fresh request; the version fields are uninitialised in the source.\<close>

definition fresh_request :: "int \<Rightarrow> int \<Rightarrow> parsed_request" where
  "fresh_request a b = \<lparr>original_req = [], pr_method = [], pr_uri = [],
     pr_version_major = a, pr_version_minor = b, headers = []\<rparr>"

section \<open>Splitting the input\<close>

lemma parse_append:
  "parse st req (xs @ ys) =
     ebind (parse st req xs) (\<lambda>(r, rest, st', req').
       if r = indeterminate then parse st' req' ys else Inr (r, rest @ ys, st', req'))"
proof (induction xs arbitrary: st req)
  case Nil
  then show ?case by simp
next
  case (Cons x xs)
  then show ?case by (cases "consume st req x") (auto split: prod.splits)
qed

text \<open>The characters a step has seen are the ones it recorded.\<close>

lemma consume_original:
  "consume st req x = Inr (r, st', req') \<Longrightarrow> original_req req' = original_req req @ [x]"
  by (cases st) (auto simp: consume_defs Let_def ebind_eq_Inr_iff split: if_splits)

lemma parse_original:
  "parse st req xs = Inr (r, rest, st', req') \<Longrightarrow>
     \<exists>seen. xs = seen @ rest \<and> original_req req' = original_req req @ seen"
proof (induction xs arbitrary: st req)
  case (Cons x xs)
  from Cons.prems obtain r1 st1 req1 where c: "consume st req x = Inr (r1, st1, req1)"
    by (auto elim: result_elims)
  note o = consume_original [OF c]
  show ?case
  proof (cases "r1 = indeterminate")
    case True
    with Cons.prems c have "parse st1 req1 xs = Inr (r, rest, st', req')" by simp
    from Cons.IH [OF this] o show ?thesis by fastforce
  next
    case False
    with Cons.prems c o show ?thesis by auto
  qed
qed simp


section \<open>Runs of characters within one state\<close>

definition token_string :: "string \<Rightarrow> bool" where
  "token_string s \<longleftrightarrow> list_all (\<lambda>c. \<not> not_token c) s"

definition uri_string :: "string \<Rightarrow> bool" where
  "uri_string s \<longleftrightarrow> list_all (\<lambda>c. \<not> is_ctl (char_int c) \<and> c \<noteq> CHR '' '') s"

definition value_string :: "string \<Rightarrow> bool" where
  "value_string s \<longleftrightarrow> list_all (\<lambda>c. \<not> is_ctl (char_int c)) s"

lemmas char_class_defs = token_string_def uri_string_def value_string_def not_token_def
  is_char_def is_ctl_def is_tspecial_def

lemma token_char_neq:
  assumes "\<not> not_token c"
  shows "c \<noteq> CHR '' ''" and "c \<noteq> CHR '':''" and "c \<noteq> CHR 0x0D" and "c \<noteq> CHR 0x09"
  using assms by (auto simp: char_class_defs char_int_def)

lemma value_char_neq: "\<not> is_ctl (char_int c) \<Longrightarrow> c \<noteq> CHR 0x0D"
  by (auto simp: is_ctl_def char_int_def)

lemma parser_is_digit_iff: "parser_is_digit (char_int c) \<longleftrightarrow> is_digit c"
proof -
  define n where "n = (of_char c :: nat)"
  have "(of_char c :: nat) mod 256 < 256" by (rule mod_less_divisor) simp
  then have n: "n < 256" by (simp add: n_def)
  have i: "(of_char c :: int) = int n" by (simp add: n_def of_nat_of_char)
  have "char_int CHR ''0'' = 48" "char_int CHR ''9'' = 57" by (simp_all add: char_int_def)
  then show ?thesis
    using n unfolding parser_is_digit_def is_digit_def char_int_def i n_def [symmetric] by auto
qed

lemma char_int_digit: "is_digit c \<Longrightarrow> char_int c = int (digit_val c) + 48"
proof -
  assume d: "is_digit c"
  have "(of_char c :: int) = int (of_char c)" by (simp add: of_nat_of_char)
  with d show ?thesis by (auto simp: is_digit_def digit_val_def char_int_def of_nat_diff)
qed

lemma version_digit_ok:
  assumes "0 \<le> v" and "is_digit c" and "v * 10 + int (digit_val c) + 48 \<le> int_max"
  shows "version_digit v c = Inr (v * 10 + int (digit_val c))"
proof -
  have "in_int (v * 10)" "in_int (v * 10 + char_int c)" "in_int (v * 10 + char_int c - 48)"
    using assms by (auto simp: char_int_digit in_int_def int_min_def)
  moreover have "char_int CHR ''0'' = 48" by (simp add: char_int_def)
  ultimately show ?thesis by (simp add: version_digit_def char_int_digit [OF assms(2)])
qed

definition digits_from :: "int \<Rightarrow> string \<Rightarrow> int" where
  "digits_from v ds = foldl (\<lambda>n c. n * 10 + int (digit_val c)) v ds"

lemma digits_from_simps [simp]:
  "digits_from v [] = v"
  "digits_from v (d # ds) = digits_from (v * 10 + int (digit_val d)) ds"
  by (simp_all add: digits_from_def)

lemma digits_from_ge: "0 \<le> v \<Longrightarrow> v \<le> digits_from v ds"
proof (induction ds arbitrary: v)
  case (Cons d ds)
  have "v * 10 + int (digit_val d) \<le> digits_from (v * 10 + int (digit_val d)) ds"
    using Cons.prems by (intro Cons.IH) simp
  with Cons.prems show ?case by simp
qed simp

lemma digits_from_val: "digits_from (int n) ds = int (foldl (\<lambda>n c. 10 * n + digit_val c) n ds)"
proof (induction ds arbitrary: n)
  case (Cons d ds)
  have "int n * 10 + int (digit_val d) = int (10 * n + digit_val d)" by simp
  with Cons.IH [of "10 * n + digit_val d"] show ?case by (simp only: digits_from_simps foldl.simps)
qed simp

lemma digits_from_nat_to_string [simp]: "digits_from 0 (nat_to_string n) = int n"
  using digits_from_val [of 0] digits_val_nat_to_string [of n] by (simp add: digits_val_def)

abbreviation seen :: "string \<Rightarrow> parsed_request \<Rightarrow> parsed_request" where
  "seen s req \<equiv> req\<lparr>original_req := original_req req @ s\<rparr>"

lemma parse_method_run:
  "token_string s \<Longrightarrow>
     parse method_state req (s @ ys) = parse method_state (seen s req\<lparr>pr_method := pr_method req @ s\<rparr>) ys"
proof (induction s arbitrary: req)
  case (Cons c s)
  then have "\<not> not_token c" "token_string s" by (simp_all add: token_string_def)
  with Cons.IH show ?case by (simp add: consume_defs token_char_neq)
qed simp

lemma parse_uri_run:
  "uri_string s \<Longrightarrow>
     parse uri req (s @ ys) = parse uri (seen s req\<lparr>pr_uri := pr_uri req @ s\<rparr>) ys"
proof (induction s arbitrary: req)
  case (Cons c s)
  then have "\<not> is_ctl (char_int c)" "c \<noteq> CHR '' ''" "uri_string s"
    by (simp_all add: uri_string_def)
  with Cons.IH show ?case by (simp add: consume_defs)
qed simp

lemma is_digit_neq:
  assumes "is_digit c"
  shows "c \<noteq> CHR ''.''" and "c \<noteq> CHR 0x0D"
  using assms by (auto simp: is_digit_def)

lemma parse_major_run:
  assumes "list_all is_digit ds" and "0 \<le> pr_version_major req"
    and "digits_from (pr_version_major req) ds + 48 \<le> int_max"
  shows "parse http_version_major req (ds @ ys) =
     parse http_version_major
       (seen ds req\<lparr>pr_version_major := digits_from (pr_version_major req) ds\<rparr>) ys"
  using assms
proof (induction ds arbitrary: req)
  case (Cons d ds)
  let ?v = "pr_version_major req * 10 + int (digit_val d)"
  from Cons.prems have d: "is_digit d" and v: "0 \<le> ?v" by simp_all
  from digits_from_ge [OF v, of ds] Cons.prems(3) have "?v + 48 \<le> int_max" by simp
  with version_digit_ok [OF Cons.prems(2) d] have "version_digit (pr_version_major req) d = Inr ?v"
    by simp
  with d v Cons show ?case by (simp add: consume_defs is_digit_neq parser_is_digit_iff)
qed simp

lemma parse_minor_run:
  assumes "list_all is_digit ds" and "0 \<le> pr_version_minor req"
    and "digits_from (pr_version_minor req) ds + 48 \<le> int_max"
  shows "parse http_version_minor req (ds @ ys) =
     parse http_version_minor
       (seen ds req\<lparr>pr_version_minor := digits_from (pr_version_minor req) ds\<rparr>) ys"
  using assms
proof (induction ds arbitrary: req)
  case (Cons d ds)
  let ?v = "pr_version_minor req * 10 + int (digit_val d)"
  from Cons.prems have d: "is_digit d" and v: "0 \<le> ?v" by simp_all
  from digits_from_ge [OF v, of ds] Cons.prems(3) have "?v + 48 \<le> int_max" by simp
  with version_digit_ok [OF Cons.prems(2) d] have "version_digit (pr_version_minor req) d = Inr ?v"
    by simp
  with d v Cons show ?case by (simp add: consume_defs is_digit_neq parser_is_digit_iff)
qed simp

lemma headers_same: "headers req = hs \<Longrightarrow> req\<lparr>headers := hs\<rparr> = req"
  by auto

lemma parse_name_run:
  "token_string s \<Longrightarrow> headers req = hs @ [h] \<Longrightarrow>
     parse header_name req (s @ ys) =
     parse header_name (seen s req\<lparr>headers := hs @ [h\<lparr>hd_name := hd_name h @ s\<rparr>]\<rparr>) ys"
proof (induction s arbitrary: req h)
  case (Cons c s)
  then have "\<not> not_token c" "token_string s" by (simp_all add: token_string_def)
  with Cons.IH Cons.prems(2) show ?case
    by (simp add: consume_defs token_char_neq back_name_push_def)
qed (simp add: headers_same)

lemma parse_value_run:
  "value_string s \<Longrightarrow> headers req = hs @ [h] \<Longrightarrow>
     parse header_value req (s @ ys) =
     parse header_value (seen s req\<lparr>headers := hs @ [h\<lparr>hd_value := hd_value h @ s\<rparr>]\<rparr>) ys"
proof (induction s arbitrary: req h)
  case (Cons c s)
  then have "\<not> is_ctl (char_int c)" "value_string s" by (simp_all add: value_string_def)
  with Cons.IH Cons.prems(2) show ?case
    by (simp add: consume_defs value_char_neq back_value_push_def)
qed (simp add: headers_same)

section \<open>A printed request is parsed back\<close>

abbreviation crlf :: string where
  "crlf \<equiv> [CHR 0x0D, CHR 0x0A]"

definition print_header :: "header \<Rightarrow> string" where
  "print_header h = hd_name h @ '': '' @ hd_value h @ crlf"

definition print_request_line :: "string \<Rightarrow> string \<Rightarrow> nat \<Rightarrow> nat \<Rightarrow> string" where
  "print_request_line m u major minor =
     m @ '' '' @ u @ '' HTTP/'' @ nat_to_string major @ ''.'' @ nat_to_string minor @ crlf"

definition print_request :: "string \<Rightarrow> string \<Rightarrow> nat \<Rightarrow> nat \<Rightarrow> header list \<Rightarrow> string" where
  "print_request m u major minor hs =
     print_request_line m u major minor @ concat (map print_header hs) @ crlf"

definition wf_header :: "header \<Rightarrow> bool" where
  "wf_header h \<longleftrightarrow> hd_name h \<noteq> [] \<and> token_string (hd_name h) \<and> value_string (hd_value h)"

lemma parse_header:
  assumes "wf_header h"
  shows "parse header_line_start req (print_header h @ ys) =
     parse header_line_start (seen (print_header h) req\<lparr>headers := headers req @ [h]\<rparr>) ys"
proof -
  from assms obtain c n where n: "hd_name h = c # n" "\<not> not_token c" "token_string n"
    by (cases "hd_name h") (auto simp: wf_header_def token_string_def)
  from assms have v: "value_string (hd_value h)" by (simp add: wf_header_def)
  show ?thesis
    by (simp add: print_header_def n(1) consume_defs token_char_neq [OF n(2)] n(2) back_name_push_def
        parse_name_run [OF n(3), where hs = "headers req"]
        parse_value_run [OF v, where hs = "headers req"])
      (cases req, cases h, simp add: n(1) [symmetric])
qed

lemma parse_headers:
  "list_all wf_header hs \<Longrightarrow>
     parse header_line_start req (concat (map print_header hs) @ ys) =
     parse header_line_start
       (seen (concat (map print_header hs)) req\<lparr>headers := headers req @ hs\<rparr>) ys"
  by (induction hs arbitrary: req) (simp_all add: parse_header)

lemma digits_start:
  obtains d ds where "nat_to_string n = d # ds" and "is_digit d" and "list_all is_digit ds"
    and "digits_from (int (digit_val d)) ds = int n"
proof -
  obtain d ds where s: "nat_to_string n = d # ds" by (cases "nat_to_string n") auto
  have "c \<in> set (nat_to_string n) \<Longrightarrow> is_digit c" for c by (rule nat_to_string_digits)
  with s have "is_digit d" "list_all is_digit ds" by (auto simp: list_all_iff)
  moreover have "digits_from (int (digit_val d)) ds = int n"
    using digits_from_nat_to_string [of n] by (simp add: s)
  ultimately show thesis using s by (rule_tac that)
qed

lemma digit_val_le: "digits_from (int (digit_val d)) ds = int n \<Longrightarrow> int (digit_val d) \<le> int n"
  using digits_from_ge [of "int (digit_val d)" ds] by simp

lemma parse_request_line:
  assumes m: "m \<noteq> []" "token_string m" and u: "uri_string u"
    and major: "int major + 48 \<le> int_max" and minor: "int minor + 48 \<le> int_max"
  shows "parse method_start req (print_request_line m u major minor @ ys) =
     parse header_line_start (seen (print_request_line m u major minor) req
       \<lparr>pr_method := pr_method req @ m, pr_uri := pr_uri req @ u,
        pr_version_major := int major, pr_version_minor := int minor\<rparr>) ys"
proof -
  obtain c m' where c: "m = c # m'" "\<not> not_token c" "token_string m'"
    using m by (cases m) (auto simp: token_string_def)
  obtain d ds where d: "nat_to_string major = d # ds" "is_digit d" "list_all is_digit ds"
    "digits_from (int (digit_val d)) ds = int major" by (rule digits_start)
  obtain e es where e: "nat_to_string minor = e # es" "is_digit e" "list_all is_digit es"
    "digits_from (int (digit_val e)) es = int minor" by (rule digits_start)
  have vd: "version_digit 0 d = Inr (int (digit_val d))"
    using version_digit_ok [of 0 d] digit_val_le [OF d(4)] d(2) major by simp
  have ve: "version_digit 0 e = Inr (int (digit_val e))"
    using version_digit_ok [of 0 e] digit_val_le [OF e(4)] e(2) minor by simp
  show ?thesis
    by (simp add: print_request_line_def c(1) d(1) e(1) consume_defs c(2) parser_is_digit_iff d(2) e(2)
        vd ve is_digit_neq parse_method_run [OF c(3)] parse_uri_run [OF u]
        parse_major_run [OF d(3)] parse_minor_run [OF e(3)] d(4) e(4) major minor)
      (cases req, simp)
qed


section \<open>The invariant of the state machine\<close>

definition header_states :: "parser_state set" where
  "header_states = {header_lws, header_name, space_before_header_value, header_value}"

text \<open>
  What holds between two characters: the method is a token and not empty once
  \<^verbatim>\<open>method_start\<close> is left, the target has no space and no control character, every header
  is well formed, and the states that append to \<^verbatim>\<open>headers.back()\<close> have a header to append
  to.
\<close>

definition parser_inv :: "parser_state \<Rightarrow> parsed_request \<Rightarrow> bool" where
  "parser_inv st req \<longleftrightarrow>
     token_string (pr_method req) \<and> (st \<noteq> method_start \<longrightarrow> pr_method req \<noteq> []) \<and>
     uri_string (pr_uri req) \<and> list_all wf_header (headers req) \<and>
     (st \<in> header_states \<longrightarrow> headers req \<noteq> [])"

definition version_states :: "parser_state set" where
  "version_states = {http_version_major_start, http_version_major,
     http_version_minor_start, http_version_minor}"

lemma wf_header_push_name:
  "wf_header h \<Longrightarrow> \<not> not_token c \<Longrightarrow> wf_header (h\<lparr>hd_name := hd_name h @ [c]\<rparr>)"
  by (simp add: wf_header_def token_string_def)

lemma wf_header_push_value:
  "wf_header h \<Longrightarrow> \<not> is_ctl (char_int c) \<Longrightarrow> wf_header (h\<lparr>hd_value := hd_value h @ [c]\<rparr>)"
  by (simp add: wf_header_def value_string_def)

lemma back_name_push_wf:
  assumes "list_all wf_header hs" and "\<not> not_token c" and "back_name_push hs c = Inr hs'"
  shows "list_all wf_header hs' \<and> hs' \<noteq> []"
  using assms by (cases hs rule: rev_cases) (auto simp: back_name_push_def wf_header_push_name)

lemma back_value_push_wf:
  assumes "list_all wf_header hs" and "\<not> is_ctl (char_int c)" and "back_value_push hs c = Inr hs'"
  shows "list_all wf_header hs' \<and> hs' \<noteq> []"
  using assms by (cases hs rule: rev_cases) (auto simp: back_value_push_def wf_header_push_value)

lemma new_header_wf:
  assumes "list_all wf_header hs" and "\<not> not_token c"
    and "back_name_push (hs @ [\<lparr>hd_name = [], hd_value = []\<rparr>]) c = Inr hs'"
  shows "list_all wf_header hs' \<and> hs' \<noteq> []"
  using assms
  by (auto simp: back_name_push_def wf_header_def token_string_def value_string_def)

lemmas parser_inv_unfold = parser_inv_def consume_defs Let_def ebind_eq_Inr_iff header_states_def
  token_string_def uri_string_def

lemma consume_inv:
  assumes "parser_inv st req" and "consume st req x = Inr (r, st', req')"
  shows "parser_inv st' req'"
proof (cases st)
  case header_line_start
  with assms show ?thesis
    using new_header_wf [of "headers req" x] by (auto simp: parser_inv_unfold split: if_splits)
next
  case header_lws
  with assms show ?thesis
    using back_value_push_wf [of "headers req" x] by (auto simp: parser_inv_unfold split: if_splits)
next
  case header_name
  with assms show ?thesis
    using back_name_push_wf [of "headers req" x] by (auto simp: parser_inv_unfold split: if_splits)
next
  case header_value
  with assms show ?thesis
    using back_value_push_wf [of "headers req" x] by (auto simp: parser_inv_unfold split: if_splits)
qed (use assms in \<open>auto simp: parser_inv_unfold split: if_splits\<close>)

text \<open>
  In a state that satisfies the invariant only a version number can leave the range of
  \<^verbatim>\<open>int\<close>: \<^verbatim>\<open>headers.back()\<close> is never called on an empty vector.
\<close>

lemma consume_Inl:
  assumes "parser_inv st req" and "consume st req x = Inl e"
  shows "st \<in> version_states \<and> is_digit x"
  using assms
  by (cases st)
    (auto simp: parser_inv_def consume_defs Let_def header_states_def version_states_def
       parser_is_digit_iff back_name_push_def back_value_push_def ebind_def
       split: if_splits sum.splits)

lemma parse_inv:
  "parser_inv st req \<Longrightarrow> parse st req xs = Inr (r, rest, st', req') \<Longrightarrow> parser_inv st' req'"
proof (induction xs arbitrary: st req)
  case (Cons x xs)
  from Cons.prems(2) obtain r1 st1 req1 where c: "consume st req x = Inr (r1, st1, req1)"
    by (auto elim: result_elims)
  note inv = consume_inv [OF Cons.prems(1) c]
  show ?case
  proof (cases "r1 = indeterminate")
    case True
    with Cons.prems(2) c have "parse st1 req1 xs = Inr (r, rest, st', req')" by simp
    with inv show ?thesis by (rule Cons.IH)
  next
    case False
    with Cons.prems(2) c inv show ?thesis by simp
  qed
qed simp

lemma parser_inv_fresh [simp]: "parser_inv method_start (fresh_request a b)"
  by (simp add: parser_inv_def fresh_request_def header_states_def token_string_def uri_string_def)

lemma consume_goodD: "consume st req x = Inr (good, st', req') \<Longrightarrow> st' = expecting_newline_3"
  by (cases st) (auto simp: consume_defs Let_def ebind_eq_Inr_iff split: if_splits)

lemma parse_good_state: "parse st req xs = Inr (good, rest, st', req') \<Longrightarrow> st' = expecting_newline_3"
  by (induction xs arbitrary: st req)
    (auto elim!: result_elims dest: consume_goodD split: if_splits)

section \<open>No undefined behaviour on short digit runs\<close>

fun digit_runs :: "nat \<Rightarrow> nat \<Rightarrow> string \<Rightarrow> bool" where
  "digit_runs m k [] = True"
| "digit_runs m k (c # cs) =
     (if is_digit c then k < m \<and> digit_runs m (Suc k) cs else digit_runs m 0 cs)"

text \<open>The version numbers are bounded by the number of digits of the current run.\<close>

definition version_bound :: "nat \<Rightarrow> parser_state \<Rightarrow> parsed_request \<Rightarrow> bool" where
  "version_bound k st req \<longleftrightarrow>
     (st = http_version_major_start \<longrightarrow> pr_version_major req = 0 \<and> pr_version_minor req = 0) \<and>
     (st = http_version_major \<longrightarrow>
        0 \<le> pr_version_major req \<and> pr_version_major req < 10 ^ k \<and> pr_version_minor req = 0) \<and>
     (st = http_version_minor_start \<longrightarrow> pr_version_minor req = 0) \<and>
     (st = http_version_minor \<longrightarrow> 0 \<le> pr_version_minor req \<and> pr_version_minor req < 10 ^ k)"

lemma digit_val_bound: "is_digit c \<Longrightarrow> digit_val c \<le> 9"
  by (auto simp: is_digit_def digit_val_def)

lemma version_digit_bound:
  assumes "0 \<le> v" and "v < 10 ^ k" and "k < 9" and "is_digit c"
  obtains w where "version_digit v c = Inr w" and "0 \<le> w" and "w < 10 ^ Suc k"
proof -
  have "(10::int) ^ k \<le> 10 ^ 8" using assms(3) by (intro power_increasing) simp_all
  with assms(2) have "v < 100000000" by simp
  moreover from digit_val_bound [OF assms(4)] have "int (digit_val c) \<le> 9" by simp
  ultimately have "v * 10 + int (digit_val c) + 48 \<le> int_max" by (simp add: int_max_def)
  from version_digit_ok [OF assms(1,4) this] show thesis
    using assms(1,2) \<open>int (digit_val c) \<le> 9\<close> that [of "v * 10 + int (digit_val c)"] by simp
qed

lemma consume_bounded:
  assumes "parser_inv st req" and "version_bound k st req" and "is_digit x \<Longrightarrow> k < 9"
  obtains r st' req' where "consume st req x = Inr (r, st', req')"
    and "r = indeterminate \<longrightarrow> version_bound (if is_digit x then Suc k else 0) st' req'"
proof (cases "st \<in> version_states \<and> is_digit x")
  case False
  then obtain r st' req' where c: "consume st req x = Inr (r, st', req')"
    using consume_Inl [OF assms(1)] by (cases "consume st req x") auto
  with False assms(2)
  have "r = indeterminate \<longrightarrow> version_bound (if is_digit x then Suc k else 0) st' req'"
    by (cases st)
      (auto simp: consume_defs Let_def ebind_eq_Inr_iff version_bound_def version_states_def
         parser_is_digit_iff split: if_splits)
  with c show thesis by (rule that)
next
  case True
  then have x: "is_digit x" "k < 9" using assms(3) by simp_all
  from True assms(2) consider
      (major) "st = http_version_major_start \<or> st = http_version_major"
        and "0 \<le> pr_version_major req" and "pr_version_major req < 10 ^ k" and "pr_version_minor req = 0"
    | (minor) "st = http_version_minor_start \<or> st = http_version_minor"
        and "0 \<le> pr_version_minor req" and "pr_version_minor req < 10 ^ k"
    by (auto simp: version_states_def version_bound_def)
  then show thesis
  proof cases
    case major
    from major(2,3) x(2,1) obtain w where "version_digit (pr_version_major req) x = Inr w"
      and "0 \<le> w" and "w < 10 ^ Suc k" by (rule version_digit_bound)
    with major x(1) show thesis
      using that [of indeterminate http_version_major "seen [x] req\<lparr>pr_version_major := w\<rparr>"]
      by (auto simp: consume_defs parser_is_digit_iff version_bound_def is_digit_neq)
  next
    case minor
    from minor(2,3) x(2,1) obtain w where "version_digit (pr_version_minor req) x = Inr w"
      and "0 \<le> w" and "w < 10 ^ Suc k" by (rule version_digit_bound)
    with minor x(1) show thesis
      using that [of indeterminate http_version_minor "seen [x] req\<lparr>pr_version_minor := w\<rparr>"]
      by (auto simp: consume_defs parser_is_digit_iff version_bound_def is_digit_neq)
  qed
qed

lemma parse_bounded:
  assumes "parser_inv st req" and "version_bound k st req" and "digit_runs 9 k xs"
  shows "\<exists>out. parse st req xs = Inr out"
  using assms
proof (induction xs arbitrary: st req k)
  case (Cons x xs)
  then have "is_digit x \<Longrightarrow> k < 9" by simp
  with Cons.prems(1,2) obtain r st1 req1 where c: "consume st req x = Inr (r, st1, req1)"
    and b: "r = indeterminate \<longrightarrow> version_bound (if is_digit x then Suc k else 0) st1 req1"
    by (rule consume_bounded)
  note inv = consume_inv [OF Cons.prems(1) c]
  from Cons.prems(3) have "digit_runs 9 (if is_digit x then Suc k else 0) xs"
    by (simp split: if_splits)
  with Cons.IH [OF inv] b c show ?case by (cases r) auto
qed simp


section \<open>Overflow of a version number\<close>

lemma version_digit_overflow:
  assumes "0 \<le> v" and "is_digit c" and "int_max < v * 10 + int (digit_val c) + 48"
  shows "version_digit v c = Inl Undefined_behaviour"
  using assms
  by (auto simp: version_digit_def char_int_digit check_int_def in_int_def ebind_def int_min_def)

lemma parse_major_overflow:
  assumes "list_all is_digit ds" and "0 \<le> pr_version_major req"
    and "pr_version_major req + 48 \<le> int_max"
    and "int_max < digits_from (pr_version_major req) ds + 48"
  shows "parse http_version_major req (ds @ ys) = Inl Undefined_behaviour"
  using assms
proof (induction ds arbitrary: req)
  case (Cons d ds)
  let ?v = "pr_version_major req * 10 + int (digit_val d)"
  from Cons.prems have d: "is_digit d" and v: "0 \<le> ?v" by simp_all
  show ?case
  proof (cases "?v + 48 \<le> int_max")
    case True
    with version_digit_ok [OF Cons.prems(2) d] d v Cons show ?thesis
      by (simp add: consume_defs is_digit_neq parser_is_digit_iff)
  next
    case False
    with version_digit_overflow [OF Cons.prems(2) d] d show ?thesis
      by (simp add: consume_defs is_digit_neq parser_is_digit_iff)
  qed
qed simp

section \<open>Properties\<close>

text \<open>
  C7. A request printed with a well-formed method, target, version and header list is
  accepted, exactly its own characters are consumed whatever follows, and the fields of the
  request are the printed ones.
\<close>

theorem parse_print_request:
  assumes "m \<noteq> []" and "token_string m" and "uri_string u"
    and "int major + 48 \<le> int_max" and "int minor + 48 \<le> int_max" and "list_all wf_header hs"
  shows "parse method_start (fresh_request a b) (print_request m u major minor hs @ rest) =
     Inr (good, rest, expecting_newline_3,
       \<lparr>original_req = print_request m u major minor hs, pr_method = m, pr_uri = u,
        pr_version_major = int major, pr_version_minor = int minor, headers = hs\<rparr>)"
  using parse_request_line [OF assms(1-5)] parse_headers [OF assms(6)]
  by (simp add: print_request_def consume_defs fresh_request_def)

theorem parse_print_request_witness:
  "parse method_start (fresh_request 7 7)
     (print_request ''GET'' ''/echo'' 1 1 [\<lparr>hd_name = ''Host'', hd_value = ''a b''\<rparr>] @ ''xyz'') =
   Inr (good, ''xyz'', expecting_newline_3,
     \<lparr>original_req = print_request ''GET'' ''/echo'' 1 1 [\<lparr>hd_name = ''Host'', hd_value = ''a b''\<rparr>],
      pr_method = ''GET'', pr_uri = ''/echo'', pr_version_major = 1, pr_version_minor = 1,
      headers = [\<lparr>hd_name = ''Host'', hd_value = ''a b''\<rparr>]\<rparr>)"
  using parse_print_request [of "''GET''" "''/echo''" 1 1 "[\<lparr>hd_name = ''Host'', hd_value = ''a b''\<rparr>]" 7 7 "''xyz''"]
  by (simp add: char_class_defs wf_header_def char_int_def int_max_def)

text \<open>
  C10. Whenever the parser reports a complete request, the characters it consumed are
  exactly those recorded in \<^verbatim>\<open>original_req\<close>, the method is a non-empty token, the target has
  no space or control character and every header has a non-empty token as name and a value
  without control characters.
\<close>

theorem parse_good_wf:
  assumes "parse method_start (fresh_request a b) xs = Inr (good, rest, st, req)"
  shows "xs = original_req req @ rest \<and> pr_method req \<noteq> [] \<and> token_string (pr_method req) \<and>
     uri_string (pr_uri req) \<and> list_all wf_header (headers req)"
proof -
  from parse_inv [OF parser_inv_fresh assms] parse_good_state [OF assms]
  have "pr_method req \<noteq> [] \<and> token_string (pr_method req) \<and> uri_string (pr_uri req) \<and>
      list_all wf_header (headers req)"
    by (simp add: parser_inv_def)
  moreover from parse_original [OF assms] have "xs = original_req req @ rest"
    by (auto simp: fresh_request_def)
  ultimately show ?thesis by simp
qed

theorem parse_good_wf_witness:
  "\<exists>st req. parse method_start (fresh_request 0 0) (''GET / HTTP/1.0'' @ crlf @ crlf @ ''!'') =
       Inr (good, ''!'', st, req) \<and>
     ''GET / HTTP/1.0'' @ crlf @ crlf @ ''!'' = original_req req @ ''!'' \<and> pr_method req \<noteq> []"
proof -
  have "parse method_start (fresh_request 0 0) (''GET / HTTP/1.0'' @ crlf @ crlf @ ''!'') =
     Inr (good, ''!'', expecting_newline_3,
       \<lparr>original_req = ''GET / HTTP/1.0'' @ crlf @ crlf, pr_method = ''GET'', pr_uri = ''/'',
        pr_version_major = 1, pr_version_minor = 0, headers = []\<rparr>)"
    by (simp add: consume_defs fresh_request_def char_class_defs char_int_def parser_is_digit_def
        version_digit_def check_int_def in_int_code)
  from parse_good_wf [OF this] this show ?thesis by blast
qed

text \<open>
  C37. On an input without ten digits in a row the parser never runs into undefined
  behaviour: it returns a result, whatever the bytes are.
\<close>

theorem parse_no_undefined_behaviour:
  assumes "digit_runs 9 0 xs"
  shows "\<exists>out. parse method_start (fresh_request a b) xs = Inr out"
  by (rule parse_bounded [OF parser_inv_fresh _ assms]) (simp add: version_bound_def)

theorem parse_no_undefined_behaviour_witness:
  "\<exists>out. parse method_start (fresh_request 0 0) ''PUT /api/x/123456789 HTTP/999999999.7'' = Inr out"
  by (rule parse_no_undefined_behaviour) (simp add: is_digit_def)

text \<open>
  A version number whose value plus 48 exceeds the range of \<^verbatim>\<open>int\<close> makes the digit
  computation overflow: the number of version digits of a request is not bounded.
\<close>

theorem parse_version_overflow:
  assumes "m \<noteq> []" and "token_string m" and "uri_string u" and "int_max < int major + 48"
  shows "parse method_start (fresh_request a b) (m @ '' '' @ u @ '' HTTP/'' @ nat_to_string major @ rest) =
     Inl Undefined_behaviour"
proof -
  obtain c m' where c: "m = c # m'" "\<not> not_token c" "token_string m'"
    using assms(1,2) by (cases m) (auto simp: token_string_def)
  obtain d ds where d: "nat_to_string major = d # ds" "is_digit d" "list_all is_digit ds"
    "digits_from (int (digit_val d)) ds = int major" by (rule digits_start)
  have small: "int (digit_val d) + 48 \<le> int_max"
    using digit_val_bound [OF d(2)] by (simp add: int_max_def)
  have vd: "version_digit 0 d = Inr (int (digit_val d))"
    using version_digit_ok [of 0 d] small d(2) by simp
  show ?thesis
    using assms(4) small
    by (simp add: c(1) d(1) consume_defs fresh_request_def c(2) parser_is_digit_iff d(2) vd
        parse_method_run [OF c(3)] parse_uri_run [OF assms(3)] parse_major_overflow [OF d(3)] d(4))
qed

theorem parse_version_overflow_witness:
  "parse method_start (fresh_request 0 0)
     (''G'' @ '' '' @ ''/'' @ '' HTTP/'' @ nat_to_string 2147483600 @ []) = Inl Undefined_behaviour"
  by (rule parse_version_overflow) (simp_all add: char_class_defs char_int_def int_max_def)

text \<open>Feeding the input in pieces, as data arrives on a socket.\<close>

fun feed :: "parser_state \<Rightarrow> parsed_request \<Rightarrow> string list \<Rightarrow> parsed result" where
  "feed st req [] = Inr (indeterminate, [], st, req)"
| "feed st req (ch # chs) =
     ebind (parse st req ch) (\<lambda>(r, rest, st', req').
       if r = indeterminate then feed st' req' chs else Inr (r, rest @ concat chs, st', req'))"

text \<open>
  Where the input is cut into pieces does not matter: feeding the pieces one after the
  other gives the result of parsing the whole input at once, errors included.
\<close>

theorem feed_concat: "feed st req chs = parse st req (concat chs)"
proof (induction chs arbitrary: st req)
  case (Cons ch chs)
  then show ?case by (auto simp: parse_append intro!: ebind_cong)
qed simp

end
