(* ===== verification/Filesystem.thy ===== *)
theory Filesystem
  imports Prelude
begin

text \<open>
  The file system as the handlers use it. Boost.Filesystem is not part of the repository:
  its functions are a parameter, the record \<open>fs_ops\<close> over an arbitrary type of worlds,
  together with the streams \<^verbatim>\<open>std::ifstream\<close> and \<^verbatim>\<open>std::ofstream\<close> that act on the same
  world. What the code relies on is the predicate \<open>fs_lawful\<close>: documented behaviour of
  single calls. \<open>mem_fs\<close> is a concrete instance, an association list from paths to nodes.

  The queries \<^verbatim>\<open>exists\<close>, \<^verbatim>\<open>is_directory\<close> and \<^verbatim>\<open>is_regular_file\<close> without an error code
  throw when the state of a path cannot be determined (a name that is too long, for one), so
  their value is a result.

  A failed \<^verbatim>\<open>std::ofstream\<close> leaves the world as it is; the sources never test it.
  \<open>fs_can_write w p\<close> says that opening \<open>p\<close> for writing succeeds.
\<close>

record 'w fs_ops =
  fs_exists :: "'w \<Rightarrow> string \<Rightarrow> bool result"
  fs_is_directory :: "'w \<Rightarrow> string \<Rightarrow> bool result"
  fs_is_regular_file :: "'w \<Rightarrow> string \<Rightarrow> bool result"
  fs_create_directory :: "'w \<Rightarrow> string \<Rightarrow> 'w \<times> bool" \<comment> \<open>the flag: the error code is set\<close>
  fs_remove :: "'w \<Rightarrow> string \<Rightarrow> ('w \<times> bool) result" \<comment> \<open>the flag: something was removed\<close>
  fs_read :: "'w \<Rightarrow> string \<Rightarrow> string option"
  fs_can_write :: "'w \<Rightarrow> string \<Rightarrow> bool"
  fs_write :: "'w \<Rightarrow> string \<Rightarrow> string \<Rightarrow> 'w"
  fs_append :: "'w \<Rightarrow> string \<Rightarrow> string \<Rightarrow> 'w"
  fs_walk :: "'w \<Rightarrow> string \<Rightarrow> string list result" \<comment> \<open>recursive_directory_iterator\<close>
  fs_absolute :: "string \<Rightarrow> string"
  fs_stem :: "string \<Rightarrow> string"

definition fs_lawful :: "'w fs_ops \<Rightarrow> bool" where
  "fs_lawful fs \<longleftrightarrow>
     (\<forall>w p. fs_is_regular_file fs w p = Inr True \<longrightarrow>
        fs_exists fs w p = Inr True \<and> fs_is_directory fs w p = Inr False) \<and>
     (\<forall>w p. fs_is_directory fs w p = Inr True \<longrightarrow> fs_exists fs w p = Inr True) \<and>
     (\<forall>w p s. fs_can_write fs w p \<longrightarrow>
        fs_read fs (fs_write fs w p s) p = Some s \<and>
        fs_is_regular_file fs (fs_write fs w p s) p = Inr True) \<and>
     (\<forall>w p s old. fs_can_write fs w p \<longrightarrow> fs_read fs w p = Some old \<longrightarrow>
        fs_read fs (fs_append fs w p s) p = Some (old @ s) \<and>
        fs_is_regular_file fs (fs_append fs w p s) p = Inr True) \<and>
     (\<forall>w p s. fs_can_write fs w p \<longrightarrow>
        fs_can_write fs (fs_write fs w p s) p \<and> fs_can_write fs (fs_append fs w p s) p) \<and>
     (\<forall>w p s. \<not> fs_can_write fs w p \<longrightarrow> fs_write fs w p s = w \<and> fs_append fs w p s = w) \<and>
     (\<forall>w p w'. fs_remove fs w p = Inr (w', True) \<longrightarrow> fs_exists fs w' p = Inr False) \<and>
     (\<forall>w p w'. fs_remove fs w p = Inr (w', False) \<longrightarrow> w' = w)"

lemma fs_lawfulD:
  assumes "fs_lawful fs"
  shows fs_regular_exists: "fs_is_regular_file fs w p = Inr True \<Longrightarrow> fs_exists fs w p = Inr True"
    and fs_regular_not_directory: "fs_is_regular_file fs w p = Inr True \<Longrightarrow> fs_is_directory fs w p = Inr False"
    and fs_directory_exists: "fs_is_directory fs w p = Inr True \<Longrightarrow> fs_exists fs w p = Inr True"
    and fs_read_write: "fs_can_write fs w p \<Longrightarrow> fs_read fs (fs_write fs w p s) p = Some s"
    and fs_regular_write: "fs_can_write fs w p \<Longrightarrow> fs_is_regular_file fs (fs_write fs w p s) p = Inr True"
    and fs_read_append: "fs_can_write fs w p \<Longrightarrow> fs_read fs w p = Some old \<Longrightarrow>
      fs_read fs (fs_append fs w p s) p = Some (old @ s)"
    and fs_regular_append: "fs_can_write fs w p \<Longrightarrow> fs_read fs w p = Some old \<Longrightarrow>
      fs_is_regular_file fs (fs_append fs w p s) p = Inr True"
    and fs_remove_gone: "fs_remove fs w p = Inr (w', True) \<Longrightarrow> fs_exists fs w' p = Inr False"
    and fs_remove_same: "fs_remove fs w p = Inr (w', False) \<Longrightarrow> w' = w"
    and fs_writable_write: "fs_can_write fs w p \<Longrightarrow> fs_can_write fs (fs_write fs w p s) p"
    and fs_writable_append: "fs_can_write fs w p \<Longrightarrow> fs_can_write fs (fs_append fs w p s) p"
    and fs_write_failed: "\<not> fs_can_write fs w p \<Longrightarrow> fs_write fs w p s = w"
  using assms unfolding fs_lawful_def by (simp_all, blast?)

text \<open>
  Reading a page: the content when the path exists, is a regular file and can be opened, the
  empty string otherwise (the block shared by the login, signup and console pages).
\<close>

definition read_page :: "'w fs_ops \<Rightarrow> 'w \<Rightarrow> string \<Rightarrow> string result" where
  "read_page fs w p =
     ebind (fs_exists fs w p) (\<lambda>ex.
       if \<not> ex then Inr []
       else ebind (fs_is_regular_file fs w p) (\<lambda>reg.
         if reg then Inr (case fs_read fs w p of Some s \<Rightarrow> s | None \<Rightarrow> []) else Inr []))"

text \<open>
  A \<^verbatim>\<open>std::ofstream\<close> in two parts, for threads that run between them: opening it creates or
  empties the file, at once; what is written goes to the start of the file when the stream is
  flushed, over what another stream may have put there. When the file is gone by then the data
  goes to a file without a name.
\<close>

definition overwrite :: "'w fs_ops \<Rightarrow> 'w \<Rightarrow> string \<Rightarrow> string \<Rightarrow> 'w" where
  "overwrite fs w p c =
     (case fs_read fs w p of None \<Rightarrow> w | Some old \<Rightarrow> fs_write fs w p (c @ drop (length c) old))"

lemma read_overwrite:
  assumes "fs_lawful fs" and "fs_can_write fs w p" and "fs_read fs w p = Some old"
  shows "fs_read fs (overwrite fs w p c) p = Some (c @ drop (length c) old)"
  using assms by (simp add: overwrite_def fs_read_write)

lemma overwrite_opened:
  assumes "fs_lawful fs" and "fs_can_write fs w p"
  shows "overwrite fs (fs_write fs w p []) p c = fs_write fs (fs_write fs w p []) p c"
  using assms by (simp add: overwrite_def fs_read_write)

text \<open>
  Opening a file and writing to it without another thread in between is the write \<open>fs_write\<close>, on
  a file system where the second of two writes to a file undoes the first.
\<close>

definition fs_rewrites :: "'w fs_ops \<Rightarrow> bool" where
  "fs_rewrites fs \<longleftrightarrow> fs_lawful fs \<and>
     (\<forall>w p a c. fs_can_write fs w p \<longrightarrow> fs_write fs (fs_write fs w p a) p c = fs_write fs w p c)"

lemma open_then_write:
  assumes "fs_rewrites fs"
  shows "(if fs_can_write fs w p then overwrite fs (fs_write fs w p []) p c else fs_write fs w p []) = fs_write fs w p c"
proof (cases "fs_can_write fs w p")
  case True
  with assms show ?thesis by (simp add: overwrite_opened fs_rewrites_def)
next
  case False
  from assms have "fs_lawful fs" by (simp add: fs_rewrites_def)
  from fs_write_failed [OF this False] False show ?thesis by simp
qed

text \<open>The queries about a path answer.\<close>

definition fs_queryable :: "'w fs_ops \<Rightarrow> 'w \<Rightarrow> string \<Rightarrow> bool" where
  "fs_queryable fs w p \<longleftrightarrow> (\<exists>a b c. fs_exists fs w p = Inr a \<and> fs_is_directory fs w p = Inr b \<and>
     fs_is_regular_file fs w p = Inr c)"

lemma fs_queryableE:
  assumes "fs_queryable fs w p"
  obtains a b c where "fs_exists fs w p = Inr a" and "fs_is_directory fs w p = Inr b"
    and "fs_is_regular_file fs w p = Inr c"
  using assms by (auto simp: fs_queryable_def)

lemma read_page_total: "fs_queryable fs w p \<Longrightarrow> \<exists>s. read_page fs w p = Inr s"
  by (auto simp: read_page_def elim!: fs_queryableE)

section \<open>An instance in memory\<close>

datatype node = Dir | File string

type_synonym mem_world = "(string \<times> node) list"

definition mem_put :: "mem_world \<Rightarrow> string \<Rightarrow> node \<Rightarrow> mem_world" where
  "mem_put w p n = (p, n) # filter (\<lambda>e. fst e \<noteq> p) w"

definition mem_file :: "mem_world \<Rightarrow> string \<Rightarrow> string option" where
  "mem_file w p = (case map_of w p of Some (File s) \<Rightarrow> Some s | _ \<Rightarrow> None)"

definition mem_fs :: "mem_world fs_ops" where
  "mem_fs =
    \<lparr>fs_exists = (\<lambda>w p. Inr (map_of w p \<noteq> None)),
     fs_is_directory = (\<lambda>w p. Inr (map_of w p = Some Dir)),
     fs_is_regular_file = (\<lambda>w p. Inr (mem_file w p \<noteq> None)),
     fs_create_directory = (\<lambda>w p. (mem_put w p Dir, False)),
     fs_remove = (\<lambda>w p. Inr (filter (\<lambda>e. fst e \<noteq> p) w, map_of w p \<noteq> None)),
     fs_read = mem_file,
     fs_can_write = (\<lambda>w p. map_of w p \<noteq> Some Dir),
     fs_write = (\<lambda>w p s. if map_of w p = Some Dir then w else mem_put w p (File s)),
     fs_append = (\<lambda>w p s. if map_of w p = Some Dir then w
        else mem_put w p (File ((case mem_file w p of Some t \<Rightarrow> t | None \<Rightarrow> []) @ s))),
     fs_walk = (\<lambda>w p. if map_of w p = Some Dir
        then Inr (map fst (filter (\<lambda>e. prefix (p @ ''/'') (fst e)) w)) else Inl Filesystem_error),
     fs_absolute = (\<lambda>p. p),
     fs_stem = (\<lambda>p. case rfind_char CHR ''/'' p of None \<Rightarrow> p | Some i \<Rightarrow> drop (Suc i) p)\<rparr>"

lemma map_of_filter_neq: "map_of (filter (\<lambda>e. fst e \<noteq> p) w) q = (if q = p then None else map_of w q)"
  by (induction w) auto

lemma filter_absent: "map_of w p = None \<Longrightarrow> filter (\<lambda>e. fst e \<noteq> p) w = w"
  by (induction w) (auto split: if_splits)

lemma mem_fs_lawful: "fs_lawful mem_fs"
  by (auto simp: fs_lawful_def mem_fs_def mem_put_def mem_file_def map_of_filter_neq filter_absent
      split: option.splits node.splits)

lemma mem_fs_rewrites: "fs_rewrites mem_fs"
  using mem_fs_lawful by (simp add: fs_rewrites_def) (simp add: mem_fs_def mem_put_def)

end
