(* ===== verification/Id_Allocator.thy ===== *)
theory Id_Allocator
  imports Prelude
begin

text \<open>
  The lists of IDs behind \<^verbatim>\<open>path_counts\<close>: how the API handler inserts an ID it finds on
  disk (constructor of \<^verbatim>\<open>request_api_handler\<close>), how it allocates the next one
  (\<^verbatim>\<open>getNextID\<close>) and how it releases one (\<^verbatim>\<open>path_counts[entity].erase\<close>). The locale
  \<open>id_allocator\<close> states what the handler needs of the three; the interpretation shows
  that the code provides it when the list started empty.
\<close>

section \<open>The operations on one list\<close>

text \<open>
  The loop \<^verbatim>\<open>while (index != ids.size() && ids[index] == ids[index - 1] + 1) index++\<close>; the
  sum is an \<^verbatim>\<open>int\<close>.
\<close>

function gap_index :: "int list \<Rightarrow> nat \<Rightarrow> nat result" where
  "gap_index ids index =
     (if index < length ids then
        ebind (check_int (ids ! (index - 1) + 1)) (\<lambda>n.
          if ids ! index = n then gap_index ids (Suc index) else Inr index)
      else Inr index)"
  by pat_completeness auto
termination
  by (relation "measure (\<lambda>(ids, index). length ids - index)") auto

declare gap_index.simps [simp del]

definition insert_at :: "nat \<Rightarrow> 'a \<Rightarrow> 'a list \<Rightarrow> 'a list" where
  "insert_at i x xs = take i xs @ x # drop i xs"

text \<open>Insertion of an ID that was found on disk.\<close>

definition insert_id :: "int list \<Rightarrow> int \<Rightarrow> int list result" where
  "insert_id ids i =
     (if i \<in> set ids then Inr ids
      else if length ids = 0 then Inr (ids @ [i])
      else if length ids = 1 then
        (if ids ! 0 < i then Inr (ids @ [i]) else Inr (insert_at 0 i ids))
      else ebind (gap_index ids 1) (\<lambda>index. Inr (insert_at index i ids)))"

text \<open>Allocation: the new ID and the list with the ID inserted.\<close>

definition next_id :: "int list \<Rightarrow> (int \<times> int list) result" where
  "next_id ids =
     (if length ids = 0 then Inr (1, insert_at 0 1 ids)
      else if length ids = 1 then
        (if ids ! 0 = 1 then Inr (2, insert_at 0 2 ids) else Inr (1, insert_at 0 1 ids))
      else
        ebind (gap_index ids 1) (\<lambda>index.
        ebind (check_int (ids ! (index - 1) + 1)) (\<lambda>i.
        Inr (i, insert_at index i ids))))"

text \<open>\<^verbatim>\<open>erase\<close> of the element that \<^verbatim>\<open>find\<close> returned.\<close>

definition release_id :: "int \<Rightarrow> int list \<Rightarrow> int list" where
  "release_id i ids = remove1 i ids"

section \<open>Facts on the gap\<close>

lemma set_insert_at [simp]: "set (insert_at i x xs) = insert x (set xs)"
proof -
  have "set (insert_at i x xs) = insert x (set (take i xs @ drop i xs))"
    by (simp add: insert_at_def del: append_take_drop_id)
  then show ?thesis by simp
qed

lemma length_insert_at [simp]: "length (insert_at i x xs) = Suc (length xs)"
  by (simp add: insert_at_def)

lemma distinct_insert_at [simp]: "distinct (insert_at i x xs) \<longleftrightarrow> x \<notin> set xs \<and> distinct xs"
proof -
  have "distinct (insert_at i x xs) \<longleftrightarrow> distinct (x # take i xs @ drop i xs)"
    by (auto simp: insert_at_def simp del: append_take_drop_id)
  then show ?thesis by simp
qed

lemma gap_index_bound: "gap_index ids i = Inr k \<Longrightarrow> i \<le> length ids \<Longrightarrow> i \<le> k \<and> k \<le> length ids"
proof (induction ids i rule: gap_index.induct)
  case (1 ids i)
  then show ?case
    by (cases "i < length ids")
      (auto simp: gap_index.simps [of ids i] ebind_eq_Inr_iff check_int_eq_Inr_iff split: if_splits)
qed

lemma gap_index_stop:
  "gap_index ids i = Inr k \<Longrightarrow> i \<le> length ids \<Longrightarrow> k < length ids \<Longrightarrow> ids ! k \<noteq> ids ! (k - 1) + 1"
proof (induction ids i rule: gap_index.induct)
  case (1 ids i)
  then show ?case
    by (cases "i < length ids")
      (auto simp: gap_index.simps [of ids i] ebind_eq_Inr_iff check_int_eq_Inr_iff split: if_splits)
qed

lemma gap_index_total:
  assumes "\<And>x. x \<in> set ids \<Longrightarrow> in_int (x + 1)" and "0 < i" and "i \<le> length ids"
  shows "\<exists>k. gap_index ids i = Inr k"
  using assms
proof (induction ids i rule: gap_index.induct)
  case (1 ids i)
  show ?case
  proof (cases "i < length ids")
    case True
    with "1.prems" have "in_int (ids ! (i - 1) + 1)" by simp
    with "1.IH" [OF True] "1.prems" True show ?thesis
      by (cases "ids ! i = ids ! (i - 1) + 1") (auto simp: gap_index.simps [of ids i])
  qed (simp add: gap_index.simps)
qed

section \<open>Insertion keeps the set\<close>

lemma insert_id_set: "insert_id ids i = Inr ids' \<Longrightarrow> set ids' = insert i (set ids)"
  by (auto simp: insert_id_def ebind_eq_Inr_iff split: if_splits)

lemma insert_id_distinct: "insert_id ids i = Inr ids' \<Longrightarrow> distinct ids \<Longrightarrow> distinct ids'"
  by (auto simp: insert_id_def ebind_eq_Inr_iff split: if_splits)

lemma next_id_set: "next_id ids = Inr (i, ids') \<Longrightarrow> set ids' = insert i (set ids)"
  by (auto simp: next_id_def ebind_eq_Inr_iff split: if_splits)

lemma next_id_in_int: "next_id ids = Inr (i, ids') \<Longrightarrow> in_int i"
  by (auto simp: next_id_def ebind_eq_Inr_iff check_int_eq_Inr_iff in_int_code split: if_splits)

lemma next_id_total:
  assumes "\<forall>x \<in> set ids. int_min \<le> x \<and> x < int_max"
  shows "\<exists>i ids'. next_id ids = Inr (i, ids')"
proof (cases "2 \<le> length ids")
  case True
  have small: "in_int (x + 1)" if "x \<in> set ids" for x using assms that by (auto simp: in_int_def)
  from True obtain k where k: "gap_index ids 1 = Inr k" using gap_index_total [of ids 1] small by auto
  have len: "length ids \<noteq> 0" "length ids \<noteq> 1" using True by linarith+
  have "k - 1 < length ids" using gap_index_bound [OF k] True by linarith
  then have "in_int (ids ! (k - 1) + 1)" using small by simp
  with k len show ?thesis unfolding next_id_def by simp
next
  case False
  then have "length ids = 0 \<or> length ids = 1" by arith
  then show ?thesis unfolding next_id_def by (elim disjE) simp_all
qed

section \<open>The shape of a list that started empty\<close>

text \<open>
  A list grown from the empty one by allocation and release is strictly increasing, except
  that the ID 1 may stand at its end: the second allocation inserts 2 in front of 1. All IDs
  are between 1 and the number of allocations.
\<close>

definition ids_ok :: "nat \<Rightarrow> int list \<Rightarrow> bool" where
  "ids_ok n ids \<longleftrightarrow>
     (\<exists>xs t. ids = xs @ t \<and> sorted_wrt (<) xs \<and> (\<forall>x \<in> set xs. 1 \<le> x) \<and>
        (t = [] \<or> t = [1] \<and> (\<forall>x \<in> set xs. 2 \<le> x))) \<and>
     (\<forall>x \<in> set ids. x \<le> int n)"

lemma ids_okE:
  assumes "ids_ok n ids"
  obtains xs t where "ids = xs @ t" and "sorted_wrt (<) xs" and "\<forall>x \<in> set xs. 1 \<le> x"
    and "t = [] \<or> t = [1] \<and> (\<forall>x \<in> set xs. 2 \<le> x)" and "\<forall>x \<in> set ids. x \<le> int n"
  using assms unfolding ids_ok_def by blast

lemma ids_okI:
  assumes "ids = xs @ t" and "sorted_wrt (<) xs" and "\<forall>x \<in> set xs. 1 \<le> x"
    and "t = [] \<or> t = [1] \<and> (\<forall>x \<in> set xs. 2 \<le> x)" and "\<forall>x \<in> set ids. x \<le> int n"
  shows "ids_ok n ids"
  using assms unfolding ids_ok_def by blast

lemma sorted_wrt_insert_at:
  assumes "sorted_wrt (<) xs" and "0 < k" and "k \<le> length xs"
    and "xs ! (k - 1) < y" and "k < length xs \<Longrightarrow> y < xs ! k"
  shows "sorted_wrt (<) (insert_at k (y :: int) xs)"
proof -
  have lt: "x < y" if "x \<in> set (take k xs)" for x
  proof -
    from that obtain j where "j < k" "x = xs ! j" using assms(3) by (auto simp: in_set_conv_nth)
    have k1: "k - 1 < length xs" using assms(2,3) by simp
    from \<open>j < k\<close> have "j < k - 1 \<or> j = k - 1" by arith
    then have "x \<le> xs ! (k - 1)"
      using sorted_wrt_nth_less [OF assms(1) _ k1, of j] \<open>x = xs ! j\<close> by auto
    with assms(4) show ?thesis by simp
  qed
  have gt: "y < x" if "x \<in> set (drop k xs)" for x
  proof -
    from that have k: "k < length xs" by (cases "k < length xs") auto
    from that obtain j where "k \<le> j" "j < length xs" "x = xs ! j"
      by (auto simp: in_set_conv_nth) (metis add.commute le_add1 less_diff_conv)
    then have "xs ! k \<le> x"
      using sorted_wrt_nth_less [OF assms(1), of k j] by (cases "j = k") auto
    with assms(5) [OF k] show ?thesis by simp
  qed
  have "sorted_wrt (<) (take k xs @ drop k xs)" using assms(1) by simp
  then show ?thesis
    using lt gt unfolding insert_at_def sorted_wrt_append by (auto intro: less_trans)
qed


lemma gap_index_run:
  "gap_index ids i = Inr k \<Longrightarrow> i \<le> j \<Longrightarrow> j < k \<Longrightarrow> ids ! j = ids ! (j - 1) + 1"
proof (induction ids i rule: gap_index.induct)
  case (1 ids i)
  show ?case
  proof (cases "i < length ids \<and> ids ! i = ids ! (i - 1) + 1 \<and> in_int (ids ! i)")
    case True
    with "1.prems"(1) have "gap_index ids (Suc i) = Inr k"
      by (auto simp: gap_index.simps [of ids i] check_int_def)
    with "1.IH" [of "ids ! i"] "1.prems"(2,3) True show ?thesis by (cases "j = i") auto
  next
    case False
    with "1.prems"(1) have "k = i"
      by (auto simp: gap_index.simps [of ids i] ebind_eq_Inr_iff check_int_eq_Inr_iff split: if_splits)
    with "1.prems"(2,3) show ?thesis by simp
  qed
qed

lemma ids_ok_distinct: "ids_ok n ids \<Longrightarrow> distinct ids"
proof (erule ids_okE)
  fix xs t
  assume "ids = xs @ t" "sorted_wrt (<) xs" "t = [] \<or> t = [1] \<and> (\<forall>x \<in> set xs. 2 \<le> x)"
  then show "distinct ids" by (auto simp: strict_sorted_iff)
qed

text \<open>Where the gap of a list of this shape lies.\<close>

lemma gap_in_front:
  assumes "2 \<le> length (xs @ t)" and "gap_index (xs @ t) 1 = Inr k"
    and "t = [] \<or> t = [1] \<and> (\<forall>x \<in> set xs. 2 \<le> x)"
  shows "0 < k" and "k \<le> length xs"
proof -
  from gap_index_bound [OF assms(2)] assms(1) have k: "1 \<le> k" "k \<le> length (xs @ t)" by simp_all
  then show "0 < k" by simp
  show "k \<le> length xs"
  proof (rule ccontr)
    assume *: "\<not> k \<le> length xs"
    with k(2) assms(3) have t: "t = [1]" "\<forall>x \<in> set xs. 2 \<le> x" by auto
    with assms(1) have xs: "1 \<le> length xs" by simp
    then have last: "length xs - 1 < length xs" by simp
    from gap_index_run [OF assms(2) xs] * t(1) have "1 = xs ! (length xs - 1) + (1 :: int)"
      using last by (simp add: nth_append)
    moreover have "2 \<le> xs ! (length xs - 1)" using t(2) xs by simp
    ultimately show False by simp
  qed
qed

lemma next_id_gap:
  assumes ok: "ids_ok n ids" and len: "2 \<le> length ids" and n: "int n < int_max"
  shows "\<exists>i ids'. next_id ids = Inr (i, ids') \<and> i \<notin> set ids \<and> ids_ok (Suc n) ids'"
proof -
  from ok obtain xs t where ids: "ids = xs @ t" and sorted: "sorted_wrt (<) xs"
    and pos: "\<forall>x \<in> set xs. 1 \<le> x" and t: "t = [] \<or> t = [1] \<and> (\<forall>x \<in> set xs. 2 \<le> x)"
    and bound: "\<forall>x \<in> set ids. x \<le> int n" by (rule ids_okE)
  have small: "in_int (x + 1)" if "x \<in> set ids" for x
    proof -
    have "1 \<le> x" using that pos t by (auto simp: ids)
    moreover have "x \<le> int n" using that bound by blast
    ultimately show ?thesis using n by (simp add: in_int_def int_min_def)
  qed
  obtain k where k: "gap_index ids 1 = Inr k"
    using gap_index_total [of ids 1] small len by auto
  have k0: "0 < k" and kx: "k \<le> length xs"
    using gap_in_front [OF _ _ t, of k] len k by (simp_all add: ids)
  define y where "y = xs ! (k - 1) + 1"
  have xk: "xs ! (k - 1) \<in> set xs" using k0 kx by (intro nth_mem) simp
  have idk: "ids ! (k - 1) = xs ! (k - 1)"
    using k0 kx nth_append_left [of "k - 1" xs t] by (simp add: ids)
  have y_small: "in_int y" using small [of "xs ! (k - 1)"] xk by (simp add: ids y_def)
  have step: "next_id ids = Inr (y, insert_at k y ids)"
  proof -
    have "length ids \<noteq> 0" "length ids \<noteq> 1" using len by linarith+
    with k y_small idk show ?thesis unfolding next_id_def y_def by simp
  qed
  have less: "y < xs ! k" if "k < length xs"
  proof -
    have "xs ! (k - 1) < xs ! k" using sorted_wrt_nth_less [OF sorted, of "k - 1" k] k0 that by simp
    moreover have "ids ! k \<noteq> ids ! (k - 1) + 1" using gap_index_stop [OF k] that len by (simp add: ids)
    ultimately show ?thesis using that idk by (simp add: y_def ids nth_append)
  qed
  have s': "sorted_wrt (<) (insert_at k y xs)"
    by (rule sorted_wrt_insert_at [OF sorted k0 kx _ less]) (simp add: y_def)
  have y2: "2 \<le> y" using pos xk by (auto simp: y_def)
  have "distinct (insert_at k y xs)" using s' by (simp add: strict_sorted_iff)
  then have fresh: "y \<notin> set ids" using t y2 by (auto simp: ids)
  have "insert_at k y ids = insert_at k y xs @ t" using kx by (simp add: ids insert_at_def)
  moreover have "y \<le> int (Suc n)" using bound xk by (auto simp: ids y_def)
  moreover have "x \<le> int (Suc n)" if "x \<in> set ids" for x using bound that by fastforce
  ultimately have "ids_ok (Suc n) (insert_at k y ids)"
    using s' pos t y2 by (intro ids_okI [of _ "insert_at k y xs" t]) (simp_all add: ids)
  with step fresh show ?thesis by blast
qed

lemma next_id_short:
  assumes ok: "ids_ok n ids" and len: "length ids < 2"
  shows "\<exists>i ids'. next_id ids = Inr (i, ids') \<and> i \<notin> set ids \<and> ids_ok (Suc n) ids'"
proof (cases ids)
  case Nil
  have "ids_ok (Suc n) [1]" unfolding ids_ok_def by (intro conjI exI [of _ "[1]"] exI [of _ "[]"]) auto
  with Nil show ?thesis by (simp add: next_id_def insert_at_def)
next
  case (Cons e es)
  with len have e: "ids = [e]" by simp
  from ok have "1 \<le> e" "e \<le> int n" by (auto elim!: ids_okE simp: e Cons_eq_append_conv)
  show ?thesis
  proof (cases "e = 1")
    case True
    have "ids_ok (Suc n) [2, 1]" unfolding ids_ok_def
      using \<open>e \<le> int n\<close> True by (intro conjI exI [of _ "[2]"] exI [of _ "[1]"]) auto
    with True show ?thesis by (simp add: e next_id_def insert_at_def)
  next
    case False
    have "ids_ok (Suc n) [1, e]" unfolding ids_ok_def
      using \<open>1 \<le> e\<close> \<open>e \<le> int n\<close> False by (intro conjI exI [of _ "[1, e]"] exI [of _ "[]"]) auto
    with False show ?thesis by (simp add: e next_id_def insert_at_def)
  qed
qed

lemma release_id_ok:
  assumes "ids_ok n ids"
  shows "ids_ok n (release_id i ids)"
proof -
  from assms obtain xs t where ids: "ids = xs @ t" and sorted: "sorted_wrt (<) xs"
    and pos: "\<forall>x \<in> set xs. 1 \<le> x" and t: "t = [] \<or> t = [1] \<and> (\<forall>x \<in> set xs. 2 \<le> x)"
    and bound: "\<forall>x \<in> set ids. x \<le> int n" by (rule ids_okE)
  have sub: "set (remove1 i xs) \<subseteq> set xs" by (rule set_remove1_subset)
  have sorted': "sorted_wrt (<) (remove1 i xs)"
    using sorted by (simp add: strict_sorted_iff sorted_remove1)
  show ?thesis
  proof (cases "i \<in> set xs")
    case True
    then have "release_id i ids = remove1 i xs @ t" by (simp add: release_id_def ids remove1_append)
    then show ?thesis unfolding ids_ok_def using sorted' pos t bound sub
      by (intro conjI exI [of _ "remove1 i xs"] exI [of _ t]) (auto simp: ids)
  next
    case False
    then have "release_id i ids = xs @ remove1 i t" by (simp add: release_id_def ids remove1_append)
    moreover have "remove1 i t = [] \<or> remove1 i t = t" using t by (cases "i = 1") auto
    ultimately show ?thesis unfolding ids_ok_def using sorted pos t bound
      by (intro conjI exI [of _ xs] exI [of _ "remove1 i t"]) (auto simp: ids)
  qed
qed

section \<open>The interface\<close>

datatype id_op = Alloc | Free int

text \<open>
  A run of allocations and releases on one list; each allocation records the new ID with the
  IDs that were in use.
\<close>

fun id_run ::
  "(int list \<Rightarrow> (int \<times> int list) result) \<Rightarrow> (int \<Rightarrow> int list \<Rightarrow> int list) \<Rightarrow> int list \<Rightarrow> id_op list
     \<Rightarrow> (int \<times> int list) list result" where
  "id_run nxt rel ids [] = Inr []"
| "id_run nxt rel ids (Alloc # ops) =
     ebind (nxt ids) (\<lambda>(i, ids'). ebind (id_run nxt rel ids' ops) (\<lambda>tr. Inr ((i, ids) # tr)))"
| "id_run nxt rel ids (Free i # ops) = id_run nxt rel (rel i ids) ops"

locale id_allocator =
  fixes nxt :: "int list \<Rightarrow> (int \<times> int list) result"
    and rel :: "int \<Rightarrow> int list \<Rightarrow> int list"
    and ok :: "nat \<Rightarrow> int list \<Rightarrow> bool"
    and cap :: nat
  assumes ok_empty: "ok 0 []"
    and nxt_law: "ok n ids \<Longrightarrow> n < cap \<Longrightarrow>
      \<exists>i ids'. nxt ids = Inr (i, ids') \<and> i \<notin> set ids \<and> set ids' = insert i (set ids) \<and> ok (Suc n) ids'"
    and rel_law: "ok n ids \<Longrightarrow> ok n (rel i ids) \<and> set (rel i ids) = set ids - {i}"
begin

lemma run_fresh:
  "ok n ids \<Longrightarrow> n + length ops \<le> cap \<Longrightarrow>
     \<exists>tr. id_run nxt rel ids ops = Inr tr \<and> list_all (\<lambda>(i, used). i \<notin> set used) tr"
proof (induction ops arbitrary: n ids)
  case (Cons op ops)
  show ?case
  proof (cases op)
    case Alloc
    from nxt_law [OF Cons.prems(1)] Cons.prems(2) obtain i ids' where
      "nxt ids = Inr (i, ids')" "i \<notin> set ids" "ok (Suc n) ids'" by auto
    with Cons.IH [of "Suc n" ids'] Cons.prems(2) Alloc show ?thesis by auto
  next
    case (Free i)
    with Cons.IH [of n "rel i ids"] Cons.prems rel_law show ?thesis by simp
  qed
qed simp

lemma run_from_empty:
  "length ops \<le> cap \<Longrightarrow> \<exists>tr. id_run nxt rel [] ops = Inr tr \<and> list_all (\<lambda>(i, used). i \<notin> set used) tr"
  using run_fresh [OF ok_empty] by simp

end

definition id_cap :: nat where
  "id_cap = 2147483647"

interpretation api_ids: id_allocator next_id release_id ids_ok id_cap
proof
  show "ids_ok 0 []" by (auto simp: ids_ok_def)
next
  fix n ids
  assume ok: "ids_ok n ids" and "n < id_cap"
  then have "int n < int_max" by (simp add: id_cap_def int_max_def)
  with ok next_id_gap [OF ok] next_id_short [OF ok]
  have "\<exists>i ids'. next_id ids = Inr (i, ids') \<and> i \<notin> set ids \<and> ids_ok (Suc n) ids'"
    by (cases "length ids < 2") auto
  then show "\<exists>i ids'. next_id ids = Inr (i, ids') \<and> i \<notin> set ids \<and>
      set ids' = insert i (set ids) \<and> ids_ok (Suc n) ids'"
    using next_id_set by blast
next
  fix n ids i
  assume ok: "ids_ok n ids"
  then show "ids_ok n (release_id i ids) \<and> set (release_id i ids) = set ids - {i}"
    using release_id_ok [OF ok, of i] ids_ok_distinct [OF ok] by (simp add: release_id_def)
qed

section \<open>Properties\<close>

text \<open>
  C9. From the empty list, every sequence of at most \<open>2\<^sup>3\<^sup>1 - 1\<close> allocations
  (\<^verbatim>\<open>getNextID\<close>) and releases (the erase of \<^verbatim>\<open>handle_delete\<close>) runs without overflow, and
  each allocated ID is one that was not in use at that moment.
\<close>

theorem ids_fresh:
  assumes "length ops \<le> id_cap"
  shows "\<exists>tr. id_run next_id release_id [] ops = Inr tr \<and> list_all (\<lambda>(i, used). i \<notin> set used) tr"
  using assms by (rule api_ids.run_from_empty)

lemma ids_fresh_witness:
  "length [Alloc, Alloc, Alloc, Free 1, Alloc] \<le> id_cap \<and>
   (\<exists>tr. id_run next_id release_id [] [Alloc, Alloc, Alloc, Free 1, Alloc] = Inr tr \<and>
      list_all (\<lambda>(i, used). i \<notin> set used) tr)"
  using ids_fresh [of "[Alloc, Alloc, Alloc, Free 1, Alloc]"] by (simp add: id_cap_def)

text \<open>
  Insertion of an ID found on disk never fails as long as no ID in the list is the
  largest \<^verbatim>\<open>int\<close>; it adds exactly that ID and keeps the list free of duplicates.
\<close>

theorem insert_id_correct:
  assumes "\<forall>x \<in> set ids. int_min \<le> x \<and> x < int_max" and "distinct ids"
  shows "\<exists>ids'. insert_id ids i = Inr ids' \<and> set ids' = insert i (set ids) \<and> distinct ids'"
proof -
  have small: "in_int (x + 1)" if "x \<in> set ids" for x using assms(1) that by (auto simp: in_int_def)
  have "\<exists>ids'. insert_id ids i = Inr ids'"
  proof (cases "2 \<le> length ids")
    case True
    then obtain k where "gap_index ids 1 = Inr k" using gap_index_total [of ids 1] small by auto
    then show ?thesis by (simp add: insert_id_def)
  next
    case False
    then have "length ids = 0 \<or> length ids = 1" by arith
    then show ?thesis unfolding insert_id_def by (elim disjE) simp_all
  qed
  then obtain ids' where "insert_id ids i = Inr ids'" ..
  with insert_id_set insert_id_distinct assms(2) show ?thesis by blast
qed

lemma insert_id_correct_witness:
  "insert_id [1, 9] 5 = Inr [1, 5, 9] \<and> (\<exists>ids'. insert_id [1, 9] 5 = Inr ids' \<and>
     set ids' = insert 5 (set [1, 9]) \<and> distinct ids')"
  using insert_id_correct [of "[1, 9]" 5]
  by (simp add: insert_id_def gap_index.simps insert_at_def in_int_code int_min_def int_max_def)

text \<open>
  The list built from the disk need not be sorted, and then an ID in use is handed out
  again: when the files 1, 5 and 9 of an entity are visited in this order the list is
  \<open>[1, 9, 5]\<close>, and the fourth allocation after that returns 5 although 5 is in use (the POST
  overwrites the file 5).
\<close>

theorem ids_reissued:
  "ebind (insert_id [] 1) (\<lambda>a. ebind (insert_id a 5) (\<lambda>b. insert_id b 9)) = Inr [1, 9, 5] \<and>
   id_run next_id release_id [1, 9, 5] [Alloc, Alloc, Alloc, Alloc] =
     Inr [(2, [1, 9, 5]), (3, [1, 2, 9, 5]), (4, [1, 2, 3, 9, 5]), (5, [1, 2, 3, 4, 9, 5])]"
  by (simp add: insert_id_def next_id_def gap_index.simps insert_at_def in_int_code)

text \<open>
  \<^verbatim>\<open>getNextID\<close> does not return the lowest available ID, which its comment
  promises: for every list of at least two IDs the result is the successor of one of them,
  so after the deletion of 1 the next ID is above the remaining ones although 1 is free.
\<close>

theorem next_id_successor:
  assumes "2 \<le> length ids" and "next_id ids = Inr (i, ids')"
  shows "\<exists>k < length ids. i = ids ! k + 1"
proof -
  have "length ids \<noteq> 0" "length ids \<noteq> 1" using assms(1) by linarith+
  with assms(2) obtain k where k: "gap_index ids 1 = Inr k" and "i = ids ! (k - 1) + 1"
    by (auto simp: next_id_def ebind_eq_Inr_iff check_int_eq_Inr_iff)
  moreover from gap_index_bound [OF k] assms(1) have "k - 1 < length ids" by linarith
  ultimately show ?thesis by blast
qed

lemma next_id_successor_witness:
  "next_id (release_id 1 [3, 2, 1]) = Inr (4, [3, 4, 2]) \<and>
   (\<exists>k < length [3 :: int, 2]. (4 :: int) = [3, 2] ! k + 1)"
proof -
  have "next_id [3, 2] = Inr (4, [3, 4, 2])"
    by (simp add: next_id_def gap_index.simps insert_at_def in_int_code)
  with next_id_successor [of "[3, 2]" 4 "[3, 4, 2]"] show ?thesis by (simp add: release_id_def)
qed

end
