(* ===== verification/Api_Handler.thy ===== *)
theory Api_Handler
  imports Http Reply Filesystem Id_Allocator
begin

text \<open>
  The CRUD handler (\<^verbatim>\<open>src/src/request_api_handler.cc\<close>). Its state is the file system
  and the map \<^verbatim>\<open>path_counts\<close> from an entity to the list of its IDs, which the factory
  owns and every handler of the location shares by reference. A handler is constructed for
  each request; the constructor (\<open>api_load\<close>) registers the files it finds under the root.
\<close>

section \<open>State\<close>

record 'w api_state =
  world :: 'w
  path_counts :: "string \<rightharpoonup> int list"

record api_handler =
  api_location :: string
  api_root :: string
  api_url :: string
  api_profile :: user_profile

text \<open>The list \<^verbatim>\<open>path_counts[entity]\<close>; a missing entity has the empty list.\<close>

definition ids_of :: "(string \<rightharpoonup> int list) \<Rightarrow> string \<Rightarrow> int list" where
  "ids_of pc entity = (case pc entity of None \<Rightarrow> [] | Some ids \<Rightarrow> ids)"

text \<open>\<^verbatim>\<open>s.substr(0, s.find_last_of("/"))\<close> and \<^verbatim>\<open>s.substr(s.find_last_of("/") + 1)\<close>\<close>

definition before_slash :: "string \<Rightarrow> string" where
  "before_slash s = (case rfind_char CHR ''/'' s of None \<Rightarrow> s | Some i \<Rightarrow> take i s)"

definition after_slash :: "string \<Rightarrow> string" where
  "after_slash s = drop (pos_succ (rfind_char CHR ''/'' s)) s"

section \<open>The constructor\<close>

definition load_file ::
  "'w fs_ops \<Rightarrow> 'w \<Rightarrow> string \<Rightarrow> (string \<rightharpoonup> int list) \<Rightarrow> (string \<rightharpoonup> int list) result" where
  "load_file fs w file pc =
     ebind (fs_is_regular_file fs w file) (\<lambda>regular.
      if \<not> regular then Inr pc
      else
        let file_path_str = fs_absolute fs file in
        if file_path_str = [] then Inl Undefined_behaviour
        else if is_digit (last file_path_str) then
          ebind (stoi (fs_stem fs file_path_str)) (\<lambda>i.
            let entity = after_slash (before_slash file_path_str) in
            ebind (insert_id (ids_of pc entity) i) (\<lambda>ids. Inr (pc(entity \<mapsto> ids))))
        else Inr pc)"

fun load_files ::
  "'w fs_ops \<Rightarrow> 'w \<Rightarrow> string list \<Rightarrow> (string \<rightharpoonup> int list) \<Rightarrow> (string \<rightharpoonup> int list) result" where
  "load_files fs w [] pc = Inr pc"
| "load_files fs w (f # files) pc = ebind (load_file fs w f pc) (load_files fs w files)"

definition api_load :: "'w fs_ops \<Rightarrow> string \<Rightarrow> 'w api_state \<Rightarrow> 'w api_state result" where
  "api_load fs root s =
     ebind (fs_walk fs (world s) root) (\<lambda>files.
     ebind (load_files fs (world s) files (path_counts s)) (\<lambda>pc.
     Inr (s\<lparr>path_counts := pc\<rparr>)))"

section \<open>The operations\<close>

definition api_log :: "api_handler \<Rightarrow> string \<Rightarrow> string" where
  "api_log h code =
     ''[MetricsForResponse] Code for response: '' @ code @ '' URL for request: '' @ api_url h @
     ''user ID: '' @ (if login_status (api_profile h) then to_string (user_id (api_profile h)) @ '' '' else []) @
     '' Corresponding handler: api handler''"

definition get_next_id ::
  "(string \<rightharpoonup> int list) \<Rightarrow> string \<Rightarrow> (int \<times> (string \<rightharpoonup> int list)) result" where
  "get_next_id pc directory =
     ebind (next_id (ids_of pc directory)) (\<lambda>(i, ids). Inr (i, pc(directory \<mapsto> ids)))"

definition send_bad_request :: "api_handler \<Rightarrow> 's \<Rightarrow> response \<Rightarrow> 's outcome" where
  "send_bad_request h s res =
     outcome_of s
       (finish Status_bad_request (stock_reply (int (result_int Status_bad_request))) ''text/html'' res)
       [api_log h ''400'']"

definition send_ok :: "api_handler \<Rightarrow> 's \<Rightarrow> string \<Rightarrow> response \<Rightarrow> 's outcome" where
  "send_ok h s bdy res = outcome_of s (finish Status_ok bdy ''text/html'' res) [api_log h ''200'']"

definition created_body :: "string \<Rightarrow> int \<Rightarrow> string" where
  "created_body p i =
     ''<html><head><title>Created</title></head><body><h1>201 Created file at '' @ p @
     '' with ID '' @ to_string i @ ''</h1></body></html>''"

definition deleted_body :: string where
  "deleted_body =
     ''<html><head><title>Deleted</title></head><body><h1>File Deleted.</h1></body></html>''"

text \<open>The world after the directory of a POST was created if it did not exist, and the error flag.\<close>

definition ensure_directory :: "'w fs_ops \<Rightarrow> 'w \<Rightarrow> string \<Rightarrow> ('w \<times> bool) result" where
  "ensure_directory fs w p =
     ebind (fs_exists fs w p) (\<lambda>ex. Inr (if \<not> ex then fs_create_directory fs w p else (w, False)))"

definition handle_post ::
  "'w fs_ops \<Rightarrow> api_handler \<Rightarrow> 'w api_state \<Rightarrow> request \<Rightarrow> response \<Rightarrow> string
     \<Rightarrow> 'w api_state outcome result" where
  "handle_post fs h s req res directory =
     (let path = api_root h @ ''/'' @ directory
      in ebind (ensure_directory fs (world s) path) (\<lambda>(w, ec).
         let s1 = s\<lparr>world := w\<rparr> in
         if ec then Inr (send_bad_request h s1 res)
         else
           ebind (get_next_id (path_counts s1) directory) (\<lambda>(i, pc).
             let file_path = path @ ''/'' @ to_string i;
                 s2 = s1\<lparr>world := fs_write fs w file_path (req_body req), path_counts := pc\<rparr>
             in Inr (outcome_of s2 (finish Status_created (created_body path i) ''text/html'' res)
                  [api_log h ''200'']))))"

definition handle_delete ::
  "'w fs_ops \<Rightarrow> api_handler \<Rightarrow> 'w api_state \<Rightarrow> request \<Rightarrow> response \<Rightarrow> string
     \<Rightarrow> 'w api_state outcome result" where
  "handle_delete fs h s req res directory =
     (let path = api_root h @ ''/'' @ directory;
          entity = before_slash directory
      in ebind (fs_exists fs (world s) path) (\<lambda>ex.
         if \<not> ex then Inr (send_bad_request h s res)
         else ebind (fs_is_directory fs (world s) path) (\<lambda>dir.
         if dir then Inr (send_bad_request h s res)
         else case stoi (after_slash directory) of
           Inl _ \<Rightarrow> Inr (send_bad_request h s res)
         | Inr i \<Rightarrow>
             (case path_counts s entity of
                None \<Rightarrow> Inr (send_bad_request h s res)
              | Some ids \<Rightarrow>
                  ebind (fs_remove fs (world s) path) (\<lambda>(w, removed).
                    let s1 = s\<lparr>world := w\<rparr> in
                    if \<not> removed then Inr (send_bad_request h s1 res)
                    else if i \<notin> set ids then Inr (send_bad_request h s1 res)
                    else Inr (send_ok h
                           (s1\<lparr>path_counts := (path_counts s)(entity \<mapsto> release_id i ids)\<rparr>)
                           deleted_body res))))))"

definition handle_get ::
  "'w fs_ops \<Rightarrow> api_handler \<Rightarrow> 'w api_state \<Rightarrow> request \<Rightarrow> response \<Rightarrow> string
     \<Rightarrow> 'w api_state outcome result" where
  "handle_get fs h s req res directory =
     (let path = api_root h @ ''/'' @ directory;
          entity = before_slash directory
      in ebind (fs_exists fs (world s) path) (\<lambda>ex.
         if \<not> ex then Inr (send_bad_request h s res)
         else ebind (fs_is_directory fs (world s) path) (\<lambda>dir.
         if dir then Inr (send_bad_request h s res)
         else case stoi (after_slash directory) of
           Inl _ \<Rightarrow> Inr (send_bad_request h s res)
         | Inr i \<Rightarrow>
             (case path_counts s entity of
                None \<Rightarrow> Inr (send_bad_request h s res)
              | Some ids \<Rightarrow>
                  if i \<notin> set ids then Inr (send_bad_request h s res)
                  else Inr (send_ok h s
                         (case fs_read fs (world s) path of None \<Rightarrow> [] | Some c \<Rightarrow> c) res)))))"

text \<open>
  The stream of \<^verbatim>\<open>handle_list\<close>: a bracket, every ID followed by a comma; then
  \<^verbatim>\<open>seekp(-1, end)\<close> and a closing bracket, which overwrites the last character.
\<close>

definition list_body :: "int list \<Rightarrow> string" where
  "list_body ids = butlast (''['' @ concat (map (\<lambda>i. to_string i @ '','') ids)) @ '']''"

definition handle_list ::
  "'w fs_ops \<Rightarrow> api_handler \<Rightarrow> 'w api_state \<Rightarrow> request \<Rightarrow> response \<Rightarrow> string
     \<Rightarrow> 'w api_state outcome result" where
  "handle_list fs h s req res directory =
     (let path = api_root h @ ''/'' @ directory
      in ebind (fs_is_directory fs (world s) path) (\<lambda>dir.
         if \<not> dir then Inr (send_bad_request h s res)
         else case path_counts s (before_slash directory) of
           None \<Rightarrow> Inr (send_bad_request h s res)
         | Some ids \<Rightarrow> Inr (send_ok h s (list_body ids) res)))"

definition handle_put ::
  "'w fs_ops \<Rightarrow> api_handler \<Rightarrow> 'w api_state \<Rightarrow> request \<Rightarrow> response \<Rightarrow> string
     \<Rightarrow> 'w api_state outcome result" where
  "handle_put fs h s req res directory =
     (let path = api_root h @ ''/'' @ directory
      in ebind (fs_exists fs (world s) path) (\<lambda>ex.
         if \<not> ex then Inr (send_bad_request h s res)
         else ebind (fs_is_directory fs (world s) path) (\<lambda>dir.
         if dir then Inr (send_bad_request h s res)
         else case stoi (after_slash directory) of
           Inl _ \<Rightarrow> Inr (send_bad_request h s res)
         | Inr _ \<Rightarrow> Inr (send_ok h (s\<lparr>world := fs_write fs (world s) path (req_body req)\<rparr>)
               (req_body req) res))))"

definition api_handle_request ::
  "'w fs_ops \<Rightarrow> api_handler \<Rightarrow> 'w api_state \<Rightarrow> request \<Rightarrow> response \<Rightarrow> 'w api_state outcome result" where
  "api_handle_request fs h s req res =
     (let req_input = req_target req;
          logged_in = login_status (api_profile h);
          directory = drop 5 req_input;
          slash = (find_char CHR ''/'' directory \<noteq> None)
      in if take 5 req_input \<noteq> ''/api/'' \<or> req_input = ''/api/'' then Inr (send_bad_request h s res)
         else case req_method req of
           Verb_post \<Rightarrow>
             if slash then Inr (send_bad_request h s res)
             else if \<not> logged_in then Inr (send_bad_request h s res)
             else handle_post fs h s req res directory
         | Verb_get \<Rightarrow>
             if slash then handle_get fs h s req res directory
             else handle_list fs h s req res directory
         | Verb_put \<Rightarrow>
             if \<not> slash then Inr (send_bad_request h s res)
             else if \<not> logged_in then Inr (send_bad_request h s res)
             else handle_put fs h s req res directory
         | Verb_delete \<Rightarrow>
             if \<not> slash then Inr (send_bad_request h s res)
             else if \<not> logged_in then Inr (send_bad_request h s res)
             else handle_delete fs h s req res directory
         | Verb_other _ \<Rightarrow> Inr (send_bad_request h s res))"

section \<open>Answers\<close>

lemma send_simps [simp]:
  "out_state (send_bad_request h s res) = s"
  "out_status (send_bad_request h s res) = Status_bad_request"
  "res_result (out_res (send_bad_request h s res)) = Status_bad_request"
  "framed (out_res (send_bad_request h s res))"
  "out_state (send_ok h s b res) = s"
  "out_status (send_ok h s b res) = Status_ok"
  "res_result (out_res (send_ok h s b res)) = Status_ok"
  "res_body (out_res (send_ok h s b res)) = res_body res @ b"
  "framed (out_res (send_ok h s b res))"
  by (simp_all add: send_bad_request_def send_ok_def)

text \<open>The status a call returns is the one of the response, and the response is framed.\<close>

definition answered :: "'s outcome \<Rightarrow> bool" where
  "answered out \<longleftrightarrow> out_status out = res_result (out_res out) \<and> framed (out_res out)"

lemma answered_send [simp]: "answered (send_bad_request h s res)" "answered (send_ok h s b res)"
  by (simp_all add: answered_def)

lemma handle_post_answered: "handle_post fs h s req res d = Inr out \<Longrightarrow> answered out"
  by (auto simp: handle_post_def Let_def answered_def elim!: result_elims split: prod.splits if_splits)

lemma handle_delete_answered: "handle_delete fs h s req res d = Inr out \<Longrightarrow> answered out"
  by (auto simp: handle_delete_def Let_def elim!: result_elims
      split: prod.splits if_splits sum.splits option.splits)

lemma handle_get_answered: "handle_get fs h s req res d = Inr out \<Longrightarrow> answered out"
  by (auto simp: handle_get_def Let_def elim!: result_elims split: if_splits sum.splits option.splits)

lemma handle_list_answered: "handle_list fs h s req res d = Inr out \<Longrightarrow> answered out"
  by (auto simp: handle_list_def Let_def elim!: result_elims split: if_splits option.splits)

lemma handle_put_answered: "handle_put fs h s req res d = Inr out \<Longrightarrow> answered out"
  by (auto simp: handle_put_def Let_def elim!: result_elims split: if_splits sum.splits)

lemmas api_answered = handle_post_answered handle_delete_answered handle_get_answered
  handle_list_answered handle_put_answered

text \<open>Case analysis on what a call of \<^verbatim>\<open>handle_request\<close> does.\<close>

lemma api_handle_request_cases:
  assumes "api_handle_request fs h s req res = r"
  obtains (bad) "r = Inr (send_bad_request h s res)"
  | (post) d where "req_method req = Verb_post" and "login_status (api_profile h)"
      and "req_target req = ''/api/'' @ d" and "CHR ''/'' \<notin> set d" and "r = handle_post fs h s req res d"
  | (get) d where "req_method req = Verb_get"
      and "req_target req = ''/api/'' @ d" and "CHR ''/'' \<in> set d" and "r = handle_get fs h s req res d"
  | (list) d where "req_method req = Verb_get"
      and "req_target req = ''/api/'' @ d" and "CHR ''/'' \<notin> set d" and "r = handle_list fs h s req res d"
  | (put) d where "req_method req = Verb_put" and "login_status (api_profile h)"
      and "req_target req = ''/api/'' @ d" and "CHR ''/'' \<in> set d" and "r = handle_put fs h s req res d"
  | (delete) d where "req_method req = Verb_delete" and "login_status (api_profile h)"
      and "req_target req = ''/api/'' @ d" and "CHR ''/'' \<in> set d" and "r = handle_delete fs h s req res d"
proof (cases "take 5 (req_target req) \<noteq> ''/api/'' \<or> req_target req = ''/api/''")
  case True
  with assms have "r = Inr (send_bad_request h s res)"
    unfolding api_handle_request_def Let_def by (simp only: if_True)
  then show ?thesis by (rule bad)
next
  case False
  define d where "d = drop 5 (req_target req)"
  from False have t: "req_target req = ''/api/'' @ d"
    unfolding d_def by (metis append_take_drop_id)
  have "r = (case req_method req of
           Verb_post \<Rightarrow>
             if CHR ''/'' \<in> set d then Inr (send_bad_request h s res)
             else if \<not> login_status (api_profile h) then Inr (send_bad_request h s res)
             else handle_post fs h s req res d
         | Verb_get \<Rightarrow>
             if CHR ''/'' \<in> set d then handle_get fs h s req res d
             else handle_list fs h s req res d
         | Verb_put \<Rightarrow>
             if CHR ''/'' \<notin> set d then Inr (send_bad_request h s res)
             else if \<not> login_status (api_profile h) then Inr (send_bad_request h s res)
             else handle_put fs h s req res d
         | Verb_delete \<Rightarrow>
             if CHR ''/'' \<notin> set d then Inr (send_bad_request h s res)
             else if \<not> login_status (api_profile h) then Inr (send_bad_request h s res)
             else handle_delete fs h s req res d
         | Verb_other _ \<Rightarrow> Inr (send_bad_request h s res))"
    using assms False
    unfolding api_handle_request_def Let_def d_def find_char_None_iff by (simp only: if_False not_not)
  then show ?thesis
    using bad post [OF _ _ t] get [OF _ t] list [OF _ t] put [OF _ _ t] delete [OF _ _ t]
    by (cases "req_method req") (auto split: if_splits)
qed

lemma api_handle_request_answered:
  "api_handle_request fs h s req res = Inr out \<Longrightarrow> answered out"
  by (erule api_handle_request_cases) (auto dest: api_answered [OF sym])

interpretation api: request_handler "api_handle_request fs h" for fs h
  by unfold_locales (auto dest!: api_handle_request_answered simp: answered_def)

section \<open>Requests of a client\<close>

definition api_request :: "verb \<Rightarrow> string \<Rightarrow> string \<Rightarrow> request" where
  "api_request v d b = \<lparr>req_method = v, req_target = ''/api/'' @ d, req_cookie = [], req_body = b\<rparr>"

lemma api_request_body [simp]: "req_body (api_request v d b) = b"
  by (simp add: api_request_def)

lemma before_slash_simp [simp]: "CHR ''/'' \<notin> set f \<Longrightarrow> before_slash (e @ CHR ''/'' # f) = e"
  by (simp add: before_slash_def rfind_char_append_notin)

lemma after_slash_simp [simp]: "CHR ''/'' \<notin> set f \<Longrightarrow> after_slash (e @ CHR ''/'' # f) = f"
  by (simp add: after_slash_def rfind_char_append_notin)

lemma before_slash_plain [simp]: "CHR ''/'' \<notin> set e \<Longrightarrow> before_slash e = e"
  by (simp add: before_slash_def iffD2 [OF rfind_char_None_iff])

lemma api_handle_request_item:
  assumes "CHR ''/'' \<in> set d"
  shows "api_handle_request fs h s (api_request Verb_get d b) res = handle_get fs h s (api_request Verb_get d b) res d"
    and "login_status (api_profile h) \<Longrightarrow>
      api_handle_request fs h s (api_request Verb_put d b) res = handle_put fs h s (api_request Verb_put d b) res d"
    and "login_status (api_profile h) \<Longrightarrow>
      api_handle_request fs h s (api_request Verb_delete d b) res = handle_delete fs h s (api_request Verb_delete d b) res d"
proof -
  from assms have "d \<noteq> []" "find_char CHR ''/'' d \<noteq> None" by (auto simp: find_char_None_iff)
  then show
    "api_handle_request fs h s (api_request Verb_get d b) res = handle_get fs h s (api_request Verb_get d b) res d"
    "login_status (api_profile h) \<Longrightarrow>
      api_handle_request fs h s (api_request Verb_put d b) res = handle_put fs h s (api_request Verb_put d b) res d"
    "login_status (api_profile h) \<Longrightarrow>
      api_handle_request fs h s (api_request Verb_delete d b) res = handle_delete fs h s (api_request Verb_delete d b) res d"
    by (simp_all add: api_handle_request_def api_request_def Let_def)
qed

lemma api_handle_request_entity:
  assumes "d \<noteq> []" and "CHR ''/'' \<notin> set d"
  shows "api_handle_request fs h s (api_request Verb_get d b) res = handle_list fs h s (api_request Verb_get d b) res d"
    and "login_status (api_profile h) \<Longrightarrow>
      api_handle_request fs h s (api_request Verb_post d b) res = handle_post fs h s (api_request Verb_post d b) res d"
  using assms by (simp_all add: api_handle_request_def api_request_def Let_def find_char_None_iff)

section \<open>What the operations do\<close>

text \<open>The file of an ID and whether the ID is registered.\<close>

definition item_path :: "api_handler \<Rightarrow> string \<Rightarrow> int \<Rightarrow> string" where
  "item_path h d i = api_root h @ ''/'' @ d @ ''/'' @ to_string i"

definition registered :: "(string \<rightharpoonup> int list) \<Rightarrow> string \<Rightarrow> int \<Rightarrow> bool" where
  "registered pc e i \<longleftrightarrow> i \<in> set (ids_of pc e)"

lemma ids_of_upd: "ids_of (pc(e \<mapsto> ids)) e' = (if e' = e then ids else ids_of pc e')"
  by (simp add: ids_of_def)

lemma registered_upd [simp]:
  "registered (pc(e \<mapsto> ids)) e' i \<longleftrightarrow> (if e' = e then i \<in> set ids else registered pc e' i)"
  by (simp add: registered_def ids_of_def)

lemma registeredE:
  assumes "registered pc e i"
  obtains ids where "pc e = Some ids" and "i \<in> set ids"
  using assms by (cases "pc e") (auto simp: registered_def ids_of_def)

lemma handle_get_item:
  assumes "registered (path_counts s) d i" and "in_int i"
    and "fs_exists fs (world s) (item_path h d i) = Inr True"
    and "fs_is_directory fs (world s) (item_path h d i) = Inr False"
    and "fs_read fs (world s) (item_path h d i) = Some c"
  shows "handle_get fs h s req res (d @ ''/'' @ to_string i) = Inr (send_ok h s c res)"
proof -
  from assms(1) obtain ids where "path_counts s d = Some ids" "i \<in> set ids" by (rule registeredE)
  with assms(2-) show ?thesis
    by (simp add: handle_get_def item_path_def to_string_no_bar)
qed

lemma written_item_get:
  assumes fs: "fs_lawful fs" and cw: "fs_can_write fs w (item_path h d i)"
    and w: "world s = fs_write fs w (item_path h d i) c"
    and i: "registered (path_counts s) d i" "in_int i"
  shows "handle_get fs h s req res (d @ ''/'' @ to_string i) = Inr (send_ok h s c res)"
  using fs_regular_exists [OF fs fs_regular_write [OF fs cw]] fs_read_write [OF fs cw]
    fs_regular_not_directory [OF fs fs_regular_write [OF fs cw]] i
  by (intro handle_get_item) (simp_all add: w)

lemma handle_post_result:
  assumes "ensure_directory fs (world s) (api_root h @ ''/'' @ d) = Inr (w, False)"
    and "get_next_id (path_counts s) d = Inr (i, pc)"
  shows "handle_post fs h s req res d = Inr (outcome_of
    (s\<lparr>world := fs_write fs w (item_path h d i) (req_body req), path_counts := pc\<rparr>)
    (finish Status_created (created_body (api_root h @ ''/'' @ d) i) ''text/html'' res) [api_log h ''200''])"
  using assms by (simp add: handle_post_def Let_def item_path_def)

text \<open>The handler does not read the Cookie field.\<close>

lemma api_handle_request_cookie [simp]:
  "api_handle_request fs h s (req\<lparr>req_cookie := c\<rparr>) res = api_handle_request fs h s req res"
proof -
  have f: "req_body (req\<lparr>req_cookie := c\<rparr>) = req_body req"
    "req_target (req\<lparr>req_cookie := c\<rparr>) = req_target req"
    "req_method (req\<lparr>req_cookie := c\<rparr>) = req_method req" by simp_all
  have "handle_post fs h s (req\<lparr>req_cookie := c\<rparr>) res = handle_post fs h s req res"
    "handle_get fs h s (req\<lparr>req_cookie := c\<rparr>) res = handle_get fs h s req res"
    "handle_list fs h s (req\<lparr>req_cookie := c\<rparr>) res = handle_list fs h s req res"
    "handle_put fs h s (req\<lparr>req_cookie := c\<rparr>) res = handle_put fs h s req res"
    "handle_delete fs h s (req\<lparr>req_cookie := c\<rparr>) res = handle_delete fs h s req res"
    by (simp_all only: fun_eq_iff handle_post_def handle_get_def handle_list_def handle_put_def
        handle_delete_def f simp_thms)
  then show ?thesis by (simp only: api_handle_request_def f)
qed

lemma handle_get_missing:
  "fs_exists fs (world s) (api_root h @ ''/'' @ d) = Inr False \<Longrightarrow>
     handle_get fs h s req res d = Inr (send_bad_request h s res)"
  by (simp add: handle_get_def Let_def)

lemma handle_postE:
  assumes "handle_post fs h s req res d = Inr out" and "out_status out = Status_created"
  obtains w i pc where "ensure_directory fs (world s) (api_root h @ ''/'' @ d) = Inr (w, False)"
    and "get_next_id (path_counts s) d = Inr (i, pc)"
    and "out_state out = s\<lparr>world := fs_write fs w (item_path h d i) (req_body req), path_counts := pc\<rparr>"
    and "res_body (out_res out) = res_body res @ created_body (api_root h @ ''/'' @ d) i"
proof -
  from assms(1) obtain w ec where e: "ensure_directory fs (world s) (api_root h @ ''/'' @ d) = Inr (w, ec)"
    by (auto simp: handle_post_def Let_def elim!: result_elims)
  with assms have "\<not> ec" by (cases ec) (auto simp: handle_post_def Let_def)
  with e assms(1) show thesis
    by (auto simp: handle_post_def Let_def item_path_def intro: that elim!: result_elims)
qed

lemma get_next_id_registered:
  assumes "get_next_id pc d = Inr (i, pc')"
  shows "in_int i" and "registered pc' e j \<longleftrightarrow> registered pc e j \<or> e = d \<and> j = i"
proof -
  from assms obtain ids where n: "next_id (ids_of pc d) = Inr (i, ids)" and pc': "pc' = pc(d \<mapsto> ids)"
    by (auto simp: get_next_id_def ebind_eq_Inr_iff)
  from n show "in_int i" by (rule next_id_in_int)
  from next_id_set [OF n] show "registered pc' e j \<longleftrightarrow> registered pc e j \<or> e = d \<and> j = i"
    by (auto simp: pc' registered_def ids_of_def)
qed

section \<open>The constructor registers what is on disk\<close>

text \<open>The ID and the entity a visited file stands for, if any.\<close>

definition item_file :: "'w fs_ops \<Rightarrow> 'w \<Rightarrow> string \<Rightarrow> string \<Rightarrow> int \<Rightarrow> bool" where
  "item_file fs w f e i \<longleftrightarrow>
     fs_is_regular_file fs w f = Inr True \<and> fs_absolute fs f \<noteq> [] \<and> is_digit (last (fs_absolute fs f)) \<and>
     stoi (fs_stem fs (fs_absolute fs f)) = Inr i \<and>
     after_slash (before_slash (fs_absolute fs f)) = e"

lemma load_file_registered:
  "load_file fs w f pc = Inr pc' \<Longrightarrow>
     registered pc' e i \<longleftrightarrow> registered pc e i \<or> item_file fs w f e i"
  by (auto simp: load_file_def Let_def item_file_def insert_id_set registered_def ids_of_upd
      elim!: result_elims split: if_splits)

lemma load_files_registered:
  "load_files fs w files pc = Inr pc' \<Longrightarrow>
     registered pc' e i \<longleftrightarrow> registered pc e i \<or> (\<exists>f \<in> set files. item_file fs w f e i)"
proof (induction files arbitrary: pc)
  case (Cons f files)
  then obtain pc1 where "load_file fs w f pc = Inr pc1" "load_files fs w files pc1 = Inr pc'"
    by (auto simp: ebind_eq_Inr_iff)
  with Cons.IH load_file_registered [of fs w f pc pc1] show ?case by auto
qed simp

lemma api_loadE:
  assumes "api_load fs root s = Inr s'"
  obtains files where "fs_walk fs (world s) root = Inr files" and "world s' = world s"
    and "\<forall>e i. registered (path_counts s') e i \<longleftrightarrow>
      registered (path_counts s) e i \<or> (\<exists>f \<in> set files. item_file fs (world s) f e i)"
proof -
  from assms obtain files pc where "fs_walk fs (world s) root = Inr files"
    and "load_files fs (world s) files (path_counts s) = Inr pc" and "s' = s\<lparr>path_counts := pc\<rparr>"
    by (auto simp: api_load_def ebind_eq_Inr_iff)
  with load_files_registered [of fs "world s" files "path_counts s" pc] show thesis
    by (intro that [of files]) simp_all
qed

lemma api_unchanged:
  assumes "api_handle_request fs h s req res = Inr out"
    and "req_method req = Verb_get \<or> \<not> login_status (api_profile h)"
  shows "out_state out = s"
proof -
  have get: "handle_get fs h s req res d = Inr out \<Longrightarrow> out_state out = s" for d
    by (auto simp: handle_get_def Let_def elim!: result_elims split: if_splits sum.splits option.splits)
  have list: "handle_list fs h s req res d = Inr out \<Longrightarrow> out_state out = s" for d
    by (auto simp: handle_list_def Let_def elim!: result_elims split: if_splits option.splits)
  from assms(1) show ?thesis
    by (rule api_handle_request_cases) (use assms(2) in \<open>auto dest: get [OF sym] list [OF sym]\<close>)
qed

section \<open>Properties\<close>

text \<open>
  A created item can be read back: a POST of a logged-in client that answers
  201 names an ID in its body, and after any later construction of a handler (which
  re-reads the directory) a GET of that ID answers 200 with exactly the posted body. The
  file system follows its documented laws and the new file can be opened for writing.
\<close>

theorem post_then_get:
  assumes fs: "fs_lawful fs" and login: "login_status (api_profile h)"
    and d: "d \<noteq> []" "CHR ''/'' \<notin> set d"
    and post: "api_handle_request fs h s (api_request Verb_post d b) new_response = Inr out"
    and created: "out_status out = Status_created"
    and writable: "\<forall>w i. ensure_directory fs (world s) (api_root h @ ''/'' @ d) = Inr (w, False) \<longrightarrow>
      fs_can_write fs w (item_path h d i)"
    and load: "api_load fs root (out_state out) = Inr s'"
    and same_root: "api_root h' = api_root h"
  shows "\<exists>i out'. res_body (out_res out) = created_body (api_root h @ ''/'' @ d) i \<and>
     api_handle_request fs h' s' (api_request Verb_get (d @ ''/'' @ to_string i) b') new_response = Inr out' \<and>
     out_status out' = Status_ok \<and> res_body (out_res out') = b"
proof -
  from post d login have "handle_post fs h s (api_request Verb_post d b) new_response d = Inr out"
    by (simp add: api_handle_request_entity)
  then obtain w i pc where w: "ensure_directory fs (world s) (api_root h @ ''/'' @ d) = Inr (w, False)"
    and n: "get_next_id (path_counts s) d = Inr (i, pc)"
    and out: "out_state out = s\<lparr>world := fs_write fs w (item_path h d i) b, path_counts := pc\<rparr>"
    and body: "res_body (out_res out) = created_body (api_root h @ ''/'' @ d) i"
    using created by (rule handle_postE) (auto simp: api_request_def)
  from load obtain files where ws: "world s' = fs_write fs w (item_path h d i) b"
    and reg: "registered (path_counts s') d i"
    using get_next_id_registered(2) [OF n, of d i] by (elim api_loadE) (auto simp: out)
  have cw: "fs_can_write fs w (item_path h d i)" using writable w by simp
  have ip: "item_path h' d i = item_path h d i" by (simp add: item_path_def same_root)
  have "handle_get fs h' s' req res (d @ ''/'' @ to_string i) = Inr (send_ok h' s' b res)" for req res
    using cw ws reg get_next_id_registered(1) [OF n] by (intro written_item_get [OF fs, of w]) (simp_all add: ip)
  with body show ?thesis by (auto simp: api_handle_request_item)
qed

text \<open>
  A PUT on a registered item that can be opened for writing answers 200 and a GET
  of the item then answers the new content.
\<close>

theorem put_then_get:
  assumes fs: "fs_lawful fs" and login: "login_status (api_profile h)"
    and i: "registered (path_counts s) d i" "in_int i"
    and present: "fs_is_regular_file fs (world s) (item_path h d i) = Inr True"
    and writable: "fs_can_write fs (world s) (item_path h d i)"
  shows "\<exists>out out'.
     api_handle_request fs h s (api_request Verb_put (d @ ''/'' @ to_string i) b) new_response = Inr out \<and>
     out_status out = Status_ok \<and>
     api_handle_request fs h (out_state out) (api_request Verb_get (d @ ''/'' @ to_string i) b') new_response = Inr out' \<and>
     out_status out' = Status_ok \<and> res_body (out_res out') = b"
proof -
  define s' where "s' = s\<lparr>world := fs_write fs (world s) (item_path h d i) b\<rparr>"
  have "handle_put fs h s (api_request Verb_put (d @ ''/'' @ to_string i) b) new_response (d @ ''/'' @ to_string i) =
      Inr (send_ok h s' b new_response)"
    using fs_regular_exists [OF fs present] fs_regular_not_directory [OF fs present] i(2)
    by (simp add: handle_put_def Let_def item_path_def s'_def to_string_no_bar)
  moreover have "handle_get fs h s' req new_response (d @ ''/'' @ to_string i) =
      Inr (send_ok h s' b new_response)" for req
    using i by (intro written_item_get [OF fs writable]) (simp_all add: s'_def)
  ultimately show ?thesis using login by (simp add: api_handle_request_item)
qed

lemma in_remove1_iff: "x \<in> set (remove1 x xs) \<longleftrightarrow> 2 \<le> count_list xs x"
proof (induction xs)
  case (Cons y ys)
  have "x \<in> set ys \<longleftrightarrow> 0 < count_list ys x" using count_list_0_iff [of ys x] by (metis gr0I less_nat_zero_code)
  with Cons show ?case by (cases "y = x") (auto simp: Suc_le_eq numeral_2_eq_2)
qed simp

text \<open>
  C17. After a DELETE that answers 200 the item cannot be read: a GET of it answers 400. One
  occurrence of its ID has been taken out of the list of its entity, and no other list has
  changed; so the ID is still registered exactly if the list had it more than once.
\<close>

theorem delete_then_get:
  assumes fs: "fs_lawful fs" and login: "login_status (api_profile h)"
    and d: "CHR ''/'' \<in> set d"
    and del: "api_handle_request fs h s (api_request Verb_delete d b) new_response = Inr out"
    and ok: "out_status out = Status_ok"
  shows "\<exists>out' i ids. api_handle_request fs h (out_state out) (api_request Verb_get d b') new_response = Inr out' \<and>
     out_status out' = Status_bad_request \<and> stoi (after_slash d) = Inr i \<and>
     path_counts s (before_slash d) = Some ids \<and> i \<in> set ids \<and>
     path_counts (out_state out) = (path_counts s)(before_slash d \<mapsto> remove1 i ids) \<and>
     (registered (path_counts (out_state out)) (before_slash d) i \<longleftrightarrow> 2 \<le> count_list ids i)"
proof -
  from del d login ok obtain i ids w where i: "stoi (after_slash d) = Inr i"
    and pc: "path_counts s (before_slash d) = Some ids" "i \<in> set ids"
    and w: "fs_remove fs (world s) (api_root h @ ''/'' @ d) = Inr (w, True)"
    and out: "out_state out =
      s\<lparr>world := w, path_counts := (path_counts s)(before_slash d \<mapsto> release_id i ids)\<rparr>"
    by (auto simp: api_handle_request_item handle_delete_def Let_def elim!: result_elims
        split: if_splits sum.splits option.splits)
  have "handle_get fs h (out_state out) req new_response d =
      Inr (send_bad_request h (out_state out) new_response)" for req
    using fs_remove_gone [OF fs w] by (intro handle_get_missing) (simp add: out)
  then show ?thesis
    using d i pc by (simp add: api_handle_request_item out registered_def ids_of_def release_id_def in_remove1_iff)
qed

text \<open>
  Only a logged-in client changes anything: a call for a client that is not logged
  in, and every GET, leaves files and IDs as they are.
\<close>

theorem api_read_only:
  assumes "api_handle_request fs h s req res = Inr out"
    and "req_method req = Verb_get \<or> \<not> login_status (api_profile h)"
  shows "out_state out = s"
  using assms by (rule api_unchanged)

text \<open>
  A request is answered, with no exception and no overflow, as long as no
  registered ID is the largest \<^verbatim>\<open>int\<close> and neither the queries about paths nor the removal
  of files throw.
\<close>

theorem api_answers:
  assumes "\<forall>e. \<forall>i \<in> set (ids_of (path_counts s) e). int_min \<le> i \<and> i < int_max"
    and "\<forall>p. fs_queryable fs (world s) p"
    and "\<forall>p. \<exists>r. fs_remove fs (world s) p = Inr r"
  shows "\<exists>out. api_handle_request fs h s req res = Inr out"
proof -
  have q: "fs_queryable fs (world s) (api_root h @ ''/'' @ d)" for d using assms(2) by blast
  have post: "\<exists>out. handle_post fs h s req res d = Inr out" for d
  proof -
    obtain i ids where "next_id (ids_of (path_counts s) d) = Inr (i, ids)"
      using next_id_total assms(1) by blast
    with q [of d] show ?thesis
      by (auto simp: handle_post_def ensure_directory_def get_next_id_def Let_def elim!: fs_queryableE
          split: prod.splits)
  qed
  have del: "\<exists>out. handle_delete fs h s req res d = Inr out" for d
  proof -
    obtain r where "fs_remove fs (world s) (api_root h @ ''/'' @ d) = Inr r" using assms(3) by blast
    with q [of d] show ?thesis
      by (cases r) (auto simp: handle_delete_def Let_def elim!: fs_queryableE split: sum.splits option.splits)
  qed
  have others: "\<exists>out. handle_get fs h s req res d = Inr out" "\<exists>out. handle_list fs h s req res d = Inr out"
    "\<exists>out. handle_put fs h s req res d = Inr out" for d
    using q [of d]
    by (auto simp: handle_get_def handle_list_def handle_put_def Let_def elim!: fs_queryableE
        split: sum.splits option.splits)
  show ?thesis
    by (rule api_handle_request_cases [OF refl, of fs h s req res]) (use post del others in auto)
qed

text \<open>
  C29. The constructor registers exactly the files it finds: after it an ID is
  registered for an entity if and only if it was before or some visited regular file whose
  path ends in a digit has that number and lies in a directory of that name.
\<close>

theorem api_load_registers:
  assumes "api_load fs root s = Inr s'"
  shows "world s' = world s \<and> (\<exists>files. fs_walk fs (world s) root = Inr files \<and>
     (\<forall>e i. registered (path_counts s') e i \<longleftrightarrow>
        registered (path_counts s) e i \<or> (\<exists>f \<in> set files. item_file fs (world s) f e i)))"
  using assms by (elim api_loadE) blast

text \<open>
  The answer to a listing is the comma-separated list of the IDs in brackets, except
  that an entity without IDs is answered with a lone closing bracket.
\<close>

theorem list_body_join:
  "list_body ids =
     (if ids = [] then '']''
      else ''['' @ to_string (hd ids) @ concat (map (\<lambda>i. '','' @ to_string i) (tl ids)) @ '']'')"
proof -
  have "butlast (x # to_string i @ CHR '','' # concat (map (\<lambda>i. to_string i @ '','') is)) =
      x # to_string i @ concat (map (\<lambda>i. '','' @ to_string i) is)" for x i "is"
    by (induction "is" arbitrary: x i) (simp_all add: butlast_append)
  then show ?thesis by (cases ids) (simp_all add: list_body_def)
qed

text \<open>
  DELETE of a file whose ID is not registered, for an entity that is: the file is
  removed although the answer is 400.
\<close>

theorem delete_unregistered:
  assumes "login_status (api_profile h)" and "stoi (after_slash d) = Inr i" and "CHR ''/'' \<in> set d"
    and "fs_exists fs (world s) (api_root h @ ''/'' @ d) = Inr True"
    and "fs_is_directory fs (world s) (api_root h @ ''/'' @ d) = Inr False"
    and "path_counts s (before_slash d) = Some ids" and "i \<notin> set ids"
    and "fs_remove fs (world s) (api_root h @ ''/'' @ d) = Inr (w, True)"
  shows "\<exists>out. api_handle_request fs h s (api_request Verb_delete d b) res = Inr out \<and>
     out_status out = Status_bad_request \<and> world (out_state out) = w"
  using assms by (simp add: api_handle_request_item handle_delete_def Let_def)

section \<open>Instances\<close>

text \<open>A logged-in user, a handler and a directory with the items 1 and 2 of one entity.\<close>

definition demo_handler :: api_handler where
  "demo_handler = \<lparr>api_location = ''/api'', api_root = ''r'', api_url = ''/api/S'',
     api_profile = \<lparr>user_id = 7, username = ''u'', email = ''e'', login_status = True\<rparr>\<rparr>"

definition demo_state :: "mem_world api_state" where
  "demo_state = \<lparr>world = [(''r'', Dir), (''r/S'', Dir), (''r/S/1'', File ''a''), (''r/S/2'', File ''b'')],
     path_counts = [''S'' \<mapsto> [1, 2]]\<rparr>"

lemmas demo_simps = demo_handler_def demo_state_def mem_fs_def mem_put_def mem_file_def item_path_def
  ensure_directory_def next_id_def get_next_id_def gap_index.simps insert_at_def in_int_code
  nat_to_string.simps to_string_def digit_char_simps ids_of_def registered_def

lemma post_then_get_witness:
  "\<exists>out s'. api_handle_request mem_fs demo_handler demo_state (api_request Verb_post ''S'' ''new'') new_response = Inr out \<and>
     out_status out = Status_created \<and> api_load mem_fs ''r'' (out_state out) = Inr s' \<and>
     (\<exists>i out'. res_body (out_res out) = created_body (api_root demo_handler @ ''/'' @ ''S'') i \<and>
        api_handle_request mem_fs demo_handler s' (api_request Verb_get (''S'' @ ''/'' @ to_string i) []) new_response = Inr out' \<and>
        out_status out' = Status_ok \<and> res_body (out_res out') = ''new'')"
proof -
  define out where "out = outcome_of
    (demo_state\<lparr>world := (''r/S/3'', File ''new'') # world demo_state, path_counts := [''S'' \<mapsto> [1, 2, 3]]\<rparr>)
    (finish Status_created (created_body ''r/S'' 3) ''text/html'' new_response) [api_log demo_handler ''200'']"
  have login: "login_status (api_profile demo_handler)" by (simp add: demo_handler_def)
  have post: "api_handle_request mem_fs demo_handler demo_state (api_request Verb_post ''S'' ''new'') new_response = Inr out"
    using login by (simp add: api_handle_request_entity) (simp add: handle_post_def Let_def demo_simps out_def)
  have created: "out_status out = Status_created" by (simp add: out_def)
  have load: "api_load mem_fs ''r'' (out_state out) = Inr (out_state out)"
    by (simp add: out_def api_load_def load_file_def demo_simps is_digit_def stoi_def is_space_def
        digits_val_def digit_val_def after_slash_def before_slash_def insert_id_def)
  have "\<forall>w i. ensure_directory mem_fs (world demo_state) (api_root demo_handler @ ''/'' @ ''S'') = Inr (w, False) \<longrightarrow>
      fs_can_write mem_fs w (item_path demo_handler ''S'' i)"
    by (auto simp: mem_fs_def demo_state_def demo_handler_def ensure_directory_def item_path_def)
  with post_then_get [OF mem_fs_lawful login _ _ post created _ load refl, of "[]"] post created load
  show ?thesis by auto
qed

lemma put_then_get_witness:
  "\<exists>out out'. api_handle_request mem_fs demo_handler demo_state (api_request Verb_put (''S'' @ ''/'' @ to_string 2) ''new'') new_response = Inr out \<and>
     out_status out = Status_ok \<and>
     api_handle_request mem_fs demo_handler (out_state out) (api_request Verb_get (''S'' @ ''/'' @ to_string 2) []) new_response = Inr out' \<and>
     out_status out' = Status_ok \<and> res_body (out_res out') = ''new''"
  by (rule put_then_get [OF mem_fs_lawful]) (simp_all add: demo_simps)

lemma delete_then_get_witness:
  "\<exists>out out'. api_handle_request mem_fs demo_handler demo_state (api_request Verb_delete ''S/2'' []) new_response = Inr out \<and>
     api_handle_request mem_fs demo_handler (out_state out) (api_request Verb_get ''S/2'' []) new_response = Inr out' \<and>
     out_status out' = Status_bad_request \<and> path_counts (out_state out) ''S'' = Some [1]"
proof -
  define s' where "s' = demo_state\<lparr>world := [(''r'', Dir), (''r/S'', Dir), (''r/S/1'', File ''a'')],
    path_counts := [''S'' \<mapsto> [1]]\<rparr>"
  have login: "login_status (api_profile demo_handler)" by (simp add: demo_handler_def)
  have del: "api_handle_request mem_fs demo_handler demo_state (api_request Verb_delete ''S/2'' []) new_response =
      Inr (send_ok demo_handler s' deleted_body new_response)"
    using login by (simp add: api_handle_request_item)
      (simp add: handle_delete_def Let_def demo_simps s'_def stoi_def is_space_def is_digit_def digits_val_def
        digit_val_def after_slash_def before_slash_def release_id_def)
  have "path_counts s' ''S'' = Some [1]" by (simp add: s'_def)
  with delete_then_get [OF mem_fs_lawful login _ del, of "[]"] del show ?thesis by auto
qed

lemma api_read_only_witness:
  "\<exists>out. api_handle_request mem_fs demo_handler demo_state (api_request Verb_get ''S'' []) new_response = Inr out \<and>
     res_body (out_res out) = ''[1,2]'' \<and> out_state out = demo_state"
proof -
  have list: "api_handle_request mem_fs demo_handler demo_state (api_request Verb_get ''S'' []) new_response =
      Inr (send_ok demo_handler demo_state ''[1,2]'' new_response)"
    by (simp add: api_handle_request_entity) (simp add: handle_list_def demo_simps list_body_def)
  have "out_state (send_ok demo_handler demo_state ''[1,2]'' new_response) = demo_state"
    using api_read_only [OF list] by (simp add: api_request_def)
  with list show ?thesis by simp
qed

lemma api_answers_witness:
  "\<exists>out. api_handle_request mem_fs demo_handler demo_state (api_request Verb_delete ''S/2'' []) new_response = Inr out"
  by (rule api_answers) (simp_all add: demo_simps int_min_def int_max_def fs_queryable_def)

lemma api_load_registers_witness:
  "\<exists>s'. api_load mem_fs ''r'' (demo_state\<lparr>path_counts := Map.empty\<rparr>) = Inr s' \<and>
     path_counts s' = [''S'' \<mapsto> [1, 2]] \<and>
     (\<exists>files. fs_walk mem_fs (world demo_state) ''r'' = Inr files \<and>
       (\<forall>e i. registered (path_counts s') e i \<longleftrightarrow>
        registered Map.empty e i \<or> (\<exists>f \<in> set files. item_file mem_fs (world demo_state) f e i)))"
proof -
  have load: "api_load mem_fs ''r'' (demo_state\<lparr>path_counts := Map.empty\<rparr>) = Inr demo_state"
    by (simp add: api_load_def load_file_def demo_simps is_digit_def stoi_def is_space_def
        digits_val_def digit_val_def after_slash_def before_slash_def insert_id_def)
  from api_load_registers [OF load] have "\<exists>files. fs_walk mem_fs (world demo_state) ''r'' = Inr files \<and>
      (\<forall>e i. registered (path_counts demo_state) e i \<longleftrightarrow>
        registered Map.empty e i \<or> (\<exists>f \<in> set files. item_file mem_fs (world demo_state) f e i))" by simp
  moreover have "path_counts demo_state = [''S'' \<mapsto> [1, 2]]" by (simp add: demo_state_def)
  ultimately show ?thesis using load by blast
qed

lemma delete_unregistered_witness:
  "\<exists>out. api_handle_request mem_fs demo_handler (demo_state\<lparr>path_counts := [''S'' \<mapsto> [1]]\<rparr>)
        (api_request Verb_delete ''S/2'' []) new_response = Inr out \<and>
     out_status out = Status_bad_request \<and>
     world (out_state out) = [(''r'', Dir), (''r/S'', Dir), (''r/S/1'', File ''a'')]"
  by (rule delete_unregistered [where i = 2 and ids = "[1]"])
    (simp_all add: demo_simps stoi_def is_space_def is_digit_def digits_val_def digit_val_def
      after_slash_def before_slash_def)

end
