(* ===== verification/Threads.thy ===== *)
theory Threads
  imports Prelude
begin

text \<open>
  Threads that share a state. \<^verbatim>\<open>main\<close> runs the event loop on all cores
  (\<^verbatim>\<open>src/src/server_main.cc\<close>), so the handlers of several requests run at once, and what they
  share, the files and the map \<^verbatim>\<open>path_counts\<close>, has no lock. A thread is what is left of the work
  on one request: it is done, with an answer, or it takes a step, one access to the shared state,
  which may throw. \<open>run_alone\<close> takes all steps of one thread without another in between;
  \<open>par_step\<close> lets any thread take the next step. What a thread does alone it can do while
  the other threads wait (\<open>thread_step\<close>, \<open>steps_bind\<close>, \<open>steps_par\<close>), which is how the schedules of
  the races are put together.
\<close>

section \<open>Programs\<close>

datatype ('s, 'a) thread = Done 'a | Step "'s \<Rightarrow> ('s \<times> ('s, 'a) thread) result"

primrec run_alone :: "('s, 'a) thread \<Rightarrow> 's \<Rightarrow> ('s \<times> 'a) result" where
  "run_alone (Done a) = (\<lambda>s. Inr (s, a))"
| "run_alone (Step f) = (\<lambda>s. case map_sum id (map_prod id run_alone) (f s) of
     Inl e \<Rightarrow> Inl e | Inr (s', r) \<Rightarrow> r s')"

primrec tbind :: "('s, 'a) thread \<Rightarrow> ('a \<Rightarrow> ('s, 'b) thread) \<Rightarrow> ('s, 'b) thread" where
  "tbind (Done a) k = k a"
| "tbind (Step f) k = Step (\<lambda>s. map_sum id (map_prod id (\<lambda>t. tbind t k)) (f s))"

text \<open>One access; an access that only reads; an exception; a result computed without an access.\<close>

definition atomically :: "('s \<Rightarrow> ('s \<times> 'a) result) \<Rightarrow> ('s, 'a) thread" where
  "atomically g = Step (\<lambda>s. ebind (g s) (\<lambda>(s', a). Inr (s', Done a)))"

definition reading :: "('s \<Rightarrow> 'a result) \<Rightarrow> ('s, 'a) thread" where
  "reading q = atomically (\<lambda>s. ebind (q s) (\<lambda>a. Inr (s, a)))"

definition throw :: "cpp_error \<Rightarrow> ('s, 'a) thread" where
  "throw e = Step (\<lambda>s. Inl e)"

definition of_result :: "'a result \<Rightarrow> ('s, 'a) thread" where
  "of_result r = (case r of Inl e \<Rightarrow> throw e | Inr a \<Rightarrow> Done a)"

lemma run_alone_Step [simp]: "run_alone (Step f) s = ebind (f s) (\<lambda>(s', t). run_alone t s')"
  by (cases "f s") auto

lemma run_alone_Done [simp]: "run_alone (Done a) s = Inr (s, a)"
  by simp

declare run_alone.simps [simp del]

lemma tbind_Step: "tbind (Step f) k = Step (\<lambda>s. ebind (f s) (\<lambda>(s', t). Inr (s', tbind t k)))"
  by (auto simp: fun_eq_iff ebind_def split: sum.split)

lemma run_alone_atomically [simp]: "run_alone (atomically g) s = g s"
  by (cases "g s") (auto simp: atomically_def)

lemma run_alone_reading [simp]: "run_alone (reading q) s = ebind (q s) (\<lambda>a. Inr (s, a))"
  by (simp add: reading_def)

lemma run_alone_throw [simp]: "run_alone (throw e) s = Inl e"
  by (simp add: throw_def)

lemma run_alone_of_result [simp]: "run_alone (of_result r) s = ebind r (\<lambda>a. Inr (s, a))"
  by (cases r) (simp_all add: of_result_def)

lemma thread_induct [case_names Done Step]:
  assumes "\<And>a. P (Done a)" and "\<And>f. (\<And>s s' t. f s = Inr (s', t) \<Longrightarrow> P t) \<Longrightarrow> P (Step f)"
  shows "P t"
proof (induction t)
  case (Step f)
  have "P t" if "f s = Inr (s', t)" for s s' t
    using Step [of "f s" "(s', t)" t] that by (metis rangeI sum_set_simps(4) singletonI prod_set_simps(2))
  then show ?case by (rule assms(2))
qed (rule assms(1))

lemma run_alone_tbind [simp]:
  "run_alone (tbind t k) s = ebind (run_alone t s) (\<lambda>(s', a). run_alone (k a) s')"
proof (induction t arbitrary: s rule: thread_induct)
  case (Step f)
  then show ?case by (cases "f s") (auto simp: tbind_Step simp del: tbind.simps)
qed simp

lemma tbind_assoc: "tbind (tbind t k) l = tbind t (\<lambda>a. tbind (k a) l)"
proof (induction t rule: thread_induct)
  case (Step f)
  then show ?case
    by (auto simp: tbind_Step fun_eq_iff ebind_def simp del: tbind.simps(2) split: sum.split)
qed simp

section \<open>Interleaving\<close>

inductive par_step :: "'s \<times> ('s, 'a) thread list \<Rightarrow> 's \<times> ('s, 'a) thread list \<Rightarrow> bool" where
  par: "i < length ts \<Longrightarrow> ts ! i = Step f \<Longrightarrow> f s = Inr (s', t) \<Longrightarrow> par_step (s, ts) (s', ts[i := t])"

text \<open>The steps of one thread; while it takes them the others wait.\<close>

inductive thread_step :: "'s \<times> ('s, 'a) thread \<Rightarrow> 's \<times> ('s, 'a) thread \<Rightarrow> bool" where
  single: "f s = Inr (s', t) \<Longrightarrow> thread_step (s, Step f) (s', t)"

inductive_cases thread_stepE: "thread_step c c'"

lemma steps_par:
  assumes "thread_step\<^sup>*\<^sup>* (s, ts ! i) (s', t)" and "i < length ts"
  shows "par_step\<^sup>*\<^sup>* (s, ts) (s', ts[i := t])"
proof -
  have "par_step\<^sup>*\<^sup>* (s, ts) (fst c, ts[i := snd c])" if "thread_step\<^sup>*\<^sup>* (s, ts ! i) c" for c
    using that
  proof induction
    case (step c c')
    from step.hyps(2) obtain f where "snd c = Step f" "f (fst c) = Inr (fst c', snd c')" by (auto elim: thread_stepE)
    with par [of i "ts[i := snd c]" f "fst c"] assms(2) have "par_step (fst c, ts[i := snd c]) (fst c', ts[i := snd c'])" by simp
    with step.IH show ?case by (rule rtranclp.rtrancl_into_rtrancl)
  qed simp
  from this [OF assms(1)] show ?thesis by simp
qed

text \<open>A part of a thread that returns when it runs alone.\<close>

lemma steps_bind:
  assumes "run_alone t s = Inr (s', a)" and "thread_step\<^sup>*\<^sup>* (s', k a) c"
  shows "thread_step\<^sup>*\<^sup>* (s, tbind t k) c"
  using assms
proof (induction t arbitrary: s rule: thread_induct)
  case (Step f)
  from Step.prems(1) obtain s1 t where f: "f s = Inr (s1, t)" and t: "run_alone t s1 = Inr (s', a)"
    by (auto elim!: result_elims)
  have "thread_step (s, tbind (Step f) k) (s1, tbind t k)" unfolding tbind_Step by (rule single) (simp add: f)
  then show ?case using Step.IH [OF f t Step.prems(2)] by (rule converse_rtranclp_into_rtranclp)
qed simp

lemma tbind_Done: "tbind t Done = t"
proof (induction t rule: thread_induct)
  case (Step f)
  then show ?case by (auto simp: tbind_Step fun_eq_iff ebind_def simp del: tbind.simps(2) split: sum.split)
qed simp

lemma steps_done: "run_alone t s = Inr (s', a) \<Longrightarrow> thread_step\<^sup>*\<^sup>* (s, t) (s', Done a)"
  using steps_bind [of t s s' a Done] by (simp add: tbind_Done)

text \<open>Calls one after the other.\<close>

fun exec_run :: "('s \<Rightarrow> 'op \<Rightarrow> ('s \<times> 'a) result) \<Rightarrow> 's \<Rightarrow> 'op list \<Rightarrow> ('s \<times> 'a list) result" where
  "exec_run ex s [] = Inr (s, [])"
| "exec_run ex s (op # ops) =
     ebind (ex s op) (\<lambda>(s1, r). ebind (exec_run ex s1 ops) (\<lambda>(s2, rs). Inr (s2, r # rs)))"

end
