(* ===== verification/Api_Store.thy ===== *)
theory Api_Store
  imports Api_Handler Threads
begin

text \<open>
  The API as a store. The specification is a map from entities to maps from IDs to contents
  with one nondeterministic step relation (\<open>store_step\<close>): POST picks an ID that is not in
  use, LIST enumerates the IDs in some order. The implementation of a step is what the server
  does for a request: construct a handler (which walks the directory) and call it. The locale
  \<open>item_store\<close> states the simulation; its interpretation proves it for the code, over a disk
  that works (\<open>storage_ok\<close>), and its lemmas lift it to sequences of requests of many clients.
\<close>

section \<open>The specification\<close>

type_synonym store = "string \<rightharpoonup> int \<rightharpoonup> string"

datatype api_op =
    Post string string
  | Get string int
  | Put string int string
  | Delete string int
  | List string

type_synonym client_op = "user_profile \<times> api_op"

definition items :: "store \<Rightarrow> string \<Rightarrow> int \<rightharpoonup> string" where
  "items \<sigma> e = (case \<sigma> e of None \<Rightarrow> Map.empty | Some m \<Rightarrow> m)"

fun writes :: "api_op \<Rightarrow> bool" where
  "writes (Post e b) = True"
| "writes (Get e i) = False"
| "writes (Put e i b) = True"
| "writes (Delete e i) = True"
| "writes (List e) = False"

abbreviation bad_body :: string where
  "bad_body \<equiv> stock_reply 400"

inductive store_step :: "string \<Rightarrow> store \<Rightarrow> client_op \<Rightarrow> store \<Rightarrow> status \<Rightarrow> string \<Rightarrow> bool" for root where
  denied: "\<not> login_status p \<Longrightarrow> writes op \<Longrightarrow> store_step root \<sigma> (p, op) \<sigma> Status_bad_request bad_body"
| post: "login_status p \<Longrightarrow> items \<sigma> e i = None \<Longrightarrow>
    store_step root \<sigma> (p, Post e b) (\<sigma>(e \<mapsto> (items \<sigma> e)(i \<mapsto> b))) Status_created
      (created_body (root @ ''/'' @ e) i)"
| get_found: "items \<sigma> e i = Some c \<Longrightarrow> store_step root \<sigma> (p, Get e i) \<sigma> Status_ok c"
| get_missing: "items \<sigma> e i = None \<Longrightarrow> store_step root \<sigma> (p, Get e i) \<sigma> Status_bad_request bad_body"
| put_found: "login_status p \<Longrightarrow> items \<sigma> e i = Some c \<Longrightarrow>
    store_step root \<sigma> (p, Put e i b) (\<sigma>(e \<mapsto> (items \<sigma> e)(i \<mapsto> b))) Status_ok b"
| put_missing: "login_status p \<Longrightarrow> items \<sigma> e i = None \<Longrightarrow>
    store_step root \<sigma> (p, Put e i b) \<sigma> Status_bad_request bad_body"
| delete_found: "login_status p \<Longrightarrow> items \<sigma> e i = Some c \<Longrightarrow>
    store_step root \<sigma> (p, Delete e i) (\<sigma>(e \<mapsto> (items \<sigma> e)(i := None))) Status_ok deleted_body"
| delete_missing: "login_status p \<Longrightarrow> items \<sigma> e i = None \<Longrightarrow>
    store_step root \<sigma> (p, Delete e i) \<sigma> Status_bad_request bad_body"
| list_found: "\<sigma> e = Some m \<Longrightarrow> distinct ids \<Longrightarrow> set ids = dom m \<Longrightarrow>
    store_step root \<sigma> (p, List e) \<sigma> Status_ok (list_body ids)"
| list_missing: "\<sigma> e = None \<Longrightarrow> store_step root \<sigma> (p, List e) \<sigma> Status_bad_request bad_body"

inductive_cases store_stepE: "store_step root \<sigma> (p, op) \<sigma>' st b"
inductive_cases store_step_getE: "store_step root \<sigma> (p, Get e i) \<sigma>' st b"

text \<open>The answers to a sequence of requests.\<close>

inductive store_run :: "string \<Rightarrow> store \<Rightarrow> client_op list \<Rightarrow> (status \<times> string) list \<Rightarrow> store \<Rightarrow> bool"
  for root where
  run_nil: "store_run root \<sigma> [] [] \<sigma>"
| run_cons: "store_step root \<sigma> op \<sigma>1 st b \<Longrightarrow> store_run root \<sigma>1 ops rs \<sigma>2 \<Longrightarrow>
    store_run root \<sigma> (op # ops) ((st, b) # rs) \<sigma>2"

section \<open>The implementation of a step\<close>

fun op_request :: "api_op \<Rightarrow> request" where
  "op_request (Post e b) = api_request Verb_post e b"
| "op_request (Get e i) = api_request Verb_get (e @ ''/'' @ to_string i) []"
| "op_request (Put e i b) = api_request Verb_put (e @ ''/'' @ to_string i) b"
| "op_request (Delete e i) = api_request Verb_delete (e @ ''/'' @ to_string i) []"
| "op_request (List e) = api_request Verb_get e []"

fun op_entity :: "api_op \<Rightarrow> string" where
  "op_entity (Post e b) = e"
| "op_entity (Get e i) = e"
| "op_entity (Put e i b) = e"
| "op_entity (Delete e i) = e"
| "op_entity (List e) = e"

fun op_id_ok :: "api_op \<Rightarrow> bool" where
  "op_id_ok (Get e i) = in_int i"
| "op_id_ok (Put e i b) = in_int i"
| "op_id_ok (Delete e i) = in_int i"
| "op_id_ok _ = True"

definition api_exec ::
  "'w fs_ops \<Rightarrow> string \<Rightarrow> string \<Rightarrow> 'w api_state \<Rightarrow> client_op \<Rightarrow> ('w api_state \<times> status \<times> string) result" where
  "api_exec fs loc root s = (\<lambda>(p, op).
     ebind (api_load fs root s) (\<lambda>s1.
     ebind (api_handle_request fs
         \<lparr>api_location = loc, api_root = root, api_url = req_target (op_request op), api_profile = p\<rparr>
         s1 (op_request op) new_response) (\<lambda>out.
     Inr (out_state out, out_status out, res_body (out_res out)))))"

section \<open>A disk that works\<close>

definition entity_at :: "string \<Rightarrow> string \<Rightarrow> string" where
  "entity_at root e = root @ ''/'' @ e"

definition item_at :: "string \<Rightarrow> string \<Rightarrow> int \<Rightarrow> string" where
  "item_at root e i = root @ ''/'' @ e @ ''/'' @ to_string i"

text \<open>
  The paths the API uses below its root, for a set of entity names; the IDs are values of an
  \<^verbatim>\<open>int\<close>.
\<close>

definition tree_path :: "string \<Rightarrow> string set \<Rightarrow> string \<Rightarrow> bool" where
  "tree_path root E p \<longleftrightarrow> p = root \<or> (\<exists>e \<in> E. p = entity_at root e \<or> (\<exists>i. in_int i \<and> p = item_at root e i))"

definition same_node :: "'w fs_ops \<Rightarrow> 'w \<Rightarrow> 'w \<Rightarrow> string \<Rightarrow> bool" where
  "same_node fs w w' q \<longleftrightarrow> fs_exists fs w' q = fs_exists fs w q \<and>
     fs_is_directory fs w' q = fs_is_directory fs w q \<and>
     fs_is_regular_file fs w' q = fs_is_regular_file fs w q \<and> fs_read fs w' q = fs_read fs w q"

text \<open>At most the path \<open>p\<close> has changed, for the queries and for the walk.\<close>

definition changed :: "'w fs_ops \<Rightarrow> string \<Rightarrow> string set \<Rightarrow> 'w \<Rightarrow> 'w \<Rightarrow> string \<Rightarrow> bool" where
  "changed fs root E w w' p \<longleftrightarrow>
     (\<forall>q. tree_path root E q \<and> q \<noteq> p \<longrightarrow> same_node fs w w' q) \<and>
     (\<forall>files. fs_walk fs w root = Inr files \<longrightarrow>
        (\<exists>files'. fs_walk fs w' root = Inr files' \<and> set files' \<subseteq> insert p (set files)))"

text \<open>
  What is relied on, for the entity names of \<open>E\<close>: the laws of single calls; names are not
  empty and have no slash; the state of every path can be determined; an absolute path ends
  with the relative one and its stem is the number; a missing directory below the root can be
  created, an item of an existing directory can be written, and a file can be removed, without
  a change to the other paths.
\<close>

definition storage_ok :: "'w fs_ops \<Rightarrow> string \<Rightarrow> string set \<Rightarrow> bool" where
  "storage_ok fs root E \<longleftrightarrow>
     fs_lawful fs \<and>
     (\<forall>e \<in> E. e \<noteq> [] \<and> CHR ''/'' \<notin> set e) \<and>
     (\<forall>w p. tree_path root E p \<longrightarrow> fs_queryable fs w p) \<and>
     (\<forall>e \<in> E. \<forall>i. in_int i \<longrightarrow> (\<exists>a. fs_absolute fs (item_at root e i) = item_at a e i \<and>
        fs_stem fs (item_at a e i) = to_string i)) \<and>
     (\<forall>w. \<forall>e \<in> E. fs_is_directory fs w root = Inr True \<longrightarrow> fs_exists fs w (entity_at root e) = Inr False \<longrightarrow>
        (\<exists>w'. fs_create_directory fs w (entity_at root e) = (w', False) \<and>
           fs_is_directory fs w' (entity_at root e) = Inr True \<and> changed fs root E w w' (entity_at root e))) \<and>
     (\<forall>w i c. \<forall>e \<in> E. in_int i \<longrightarrow> fs_is_directory fs w (entity_at root e) = Inr True \<longrightarrow>
        fs_is_directory fs w (item_at root e i) = Inr False \<longrightarrow>
        fs_can_write fs w (item_at root e i) \<and>
        changed fs root E w (fs_write fs w (item_at root e i) c) (item_at root e i)) \<and>
     (\<forall>w i. \<forall>e \<in> E. in_int i \<longrightarrow> fs_is_regular_file fs w (item_at root e i) = Inr True \<longrightarrow>
        (\<exists>w'. fs_remove fs w (item_at root e i) = Inr (w', True) \<and>
           changed fs root E w w' (item_at root e i)))"

lemma storage_okD:
  assumes "storage_ok fs root E"
  shows storage_lawful: "fs_lawful fs"
    and storage_names: "e \<in> E \<Longrightarrow> e \<noteq> []" "e \<in> E \<Longrightarrow> CHR ''/'' \<notin> set e"
    and storage_queryable: "tree_path root E p \<Longrightarrow> fs_queryable fs w p"
    and storage_numbering: "e \<in> E \<Longrightarrow> in_int i \<Longrightarrow> \<exists>a. fs_absolute fs (item_at root e i) = item_at a e i \<and>
        fs_stem fs (item_at a e i) = to_string i"
    and storage_create: "e \<in> E \<Longrightarrow> fs_is_directory fs w root = Inr True \<Longrightarrow>
        fs_exists fs w (entity_at root e) = Inr False \<Longrightarrow>
        \<exists>w'. fs_create_directory fs w (entity_at root e) = (w', False) \<and>
           fs_is_directory fs w' (entity_at root e) = Inr True \<and> changed fs root E w w' (entity_at root e)"
    and storage_write: "e \<in> E \<Longrightarrow> in_int i \<Longrightarrow> fs_is_directory fs w (entity_at root e) = Inr True \<Longrightarrow>
        fs_is_directory fs w (item_at root e i) = Inr False \<Longrightarrow>
        fs_can_write fs w (item_at root e i) \<and>
        changed fs root E w (fs_write fs w (item_at root e i) c) (item_at root e i)"
    and storage_remove: "e \<in> E \<Longrightarrow> in_int i \<Longrightarrow> fs_is_regular_file fs w (item_at root e i) = Inr True \<Longrightarrow>
        \<exists>w'. fs_remove fs w (item_at root e i) = Inr (w', True) \<and> changed fs root E w w' (item_at root e i)"
  using assms unfolding storage_ok_def by (simp_all, blast?)

section \<open>Paths\<close>

lemma nat_to_string_inj: "nat_to_string m = nat_to_string n \<Longrightarrow> m = n"
  by (drule arg_cong [where f = digits_val]) simp

lemma to_string_inj: "to_string i = to_string j \<Longrightarrow> i = j"
proof -
  assume e: "to_string i = to_string j"
  have d: "hd (nat_to_string n) \<noteq> CHR ''-''" for n
    using nat_to_string_digits [of "hd (nat_to_string n)" n] is_digitD(2) by (metis hd_in_set nat_to_string_nonempty)
  show ?thesis
  proof (cases "i < 0"; cases "j < 0")
    assume "i < 0" "j < 0"
    with e have "nat (- i) = nat (- j)" by (intro nat_to_string_inj) (simp add: to_string_def)
    with \<open>i < 0\<close> \<open>j < 0\<close> show ?thesis by simp
  next
    assume "\<not> i < 0" "\<not> j < 0"
    with e have "nat i = nat j" by (intro nat_to_string_inj) (simp add: to_string_def)
    with \<open>\<not> i < 0\<close> \<open>\<not> j < 0\<close> show ?thesis by simp
  qed (use e d in \<open>auto simp: to_string_def\<close>, (metis list.sel(1))+)
qed

lemma last_to_string: "is_digit (last (to_string i))"
proof -
  have "is_digit (last (nat_to_string n))" for n by (rule nat_to_string_digits [of _ n]) simp
  then show ?thesis by (simp add: to_string_def)
qed

lemma item_at_eq_iff:
  assumes "CHR ''/'' \<notin> set e" and "CHR ''/'' \<notin> set e'"
  shows "item_at root e i = item_at root e' j \<longleftrightarrow> e = e' \<and> i = j"
proof
  assume "item_at root e i = item_at root e' j"
  then have "before_slash (e @ CHR ''/'' # to_string i) = before_slash (e' @ CHR ''/'' # to_string j)"
    and "after_slash (e @ CHR ''/'' # to_string i) = after_slash (e' @ CHR ''/'' # to_string j)"
    by (simp_all add: item_at_def)
  then show "e = e' \<and> i = j" using to_string_inj by (simp add: to_string_no_bar)
qed simp

lemma entity_at_eq_iff [simp]: "entity_at root e = entity_at root e' \<longleftrightarrow> e = e'"
  by (simp add: entity_at_def)

lemma entity_not_item:
  assumes "CHR ''/'' \<notin> set e"
  shows "entity_at root e \<noteq> item_at root e' j" "item_at root e' j \<noteq> entity_at root e"
proof -
  show "entity_at root e \<noteq> item_at root e' j"
  proof
    assume "entity_at root e = item_at root e' j"
    then have "e = e' @ CHR ''/'' # to_string j" by (simp add: entity_at_def item_at_def)
    with assms show False by simp
  qed
  then show "item_at root e' j \<noteq> entity_at root e" by metis
qed

lemma below_root [simp]:
  "entity_at root e \<noteq> root" "root \<noteq> entity_at root e" "item_at root e i \<noteq> root" "root \<noteq> item_at root e i"
  by (simp_all add: entity_at_def item_at_def)

lemma tree_pathI [intro]:
  "tree_path root E root"
  "e \<in> E \<Longrightarrow> tree_path root E (entity_at root e)"
  "e \<in> E \<Longrightarrow> in_int i \<Longrightarrow> tree_path root E (item_at root e i)"
  by (auto simp: tree_path_def)

section \<open>Queries of a path\<close>

lemma exists_false:
  assumes "storage_ok fs root E" and "tree_path root E p" and "fs_exists fs w p = Inr False"
  shows "fs_is_directory fs w p = Inr False" and "fs_is_regular_file fs w p = Inr False"
proof -
  note fs = storage_lawful [OF assms(1)]
  from storage_queryable [OF assms(1,2), of w] obtain b c where
    q: "fs_is_directory fs w p = Inr b" "fs_is_regular_file fs w p = Inr c" by (rule fs_queryableE)
  with fs_directory_exists [OF fs, of w p] fs_regular_exists [OF fs, of w p] assms(3)
  show "fs_is_directory fs w p = Inr False" "fs_is_regular_file fs w p = Inr False" by auto
qed

lemma directory_not_regular:
  assumes "storage_ok fs root E" and "tree_path root E p" and "fs_is_directory fs w p = Inr True"
  shows "fs_is_regular_file fs w p = Inr False"
proof -
  from storage_queryable [OF assms(1,2), of w] obtain c where "fs_is_regular_file fs w p = Inr c" by (rule fs_queryableE)
  with fs_regular_not_directory [OF storage_lawful [OF assms(1)], of w p] assms(3) show ?thesis by auto
qed

section \<open>The representation\<close>

lemma ids_ok_in_int:
  assumes "ids_ok n ids" and "n \<le> id_cap" and "i \<in> set ids"
  shows "in_int i"
proof -
  from assms(1) obtain xs t where "ids = xs @ t" "\<forall>x \<in> set xs. 1 \<le> x" "t = [] \<or> t = [1] \<and> (\<forall>x \<in> set xs. 2 \<le> x)"
    and n: "\<forall>x \<in> set ids. x \<le> int n" by (rule ids_okE)
  then have "1 \<le> i" using assms(3) by auto
  moreover have "i \<le> int n" using n assms(3) by blast
  ultimately show ?thesis using assms(2) by (simp add: in_int_code id_cap_def)
qed

lemma ids_ok_mono:
  assumes "ids_ok n ids" and "n \<le> n'"
  shows "ids_ok n' ids"
proof -
  have "x \<le> int n'" if "x \<le> int n" for x using that assms(2) by simp
  with assms(1) show ?thesis unfolding ids_ok_def by blast
qed

definition item_node :: "'w fs_ops \<Rightarrow> 'w \<Rightarrow> string \<Rightarrow> string option \<Rightarrow> bool" where
  "item_node fs w p co \<longleftrightarrow> (case co of
     None \<Rightarrow> fs_exists fs w p = Inr False
   | Some c \<Rightarrow> fs_is_regular_file fs w p = Inr True \<and> fs_read fs w p = Some c)"

text \<open>An entity: its list of IDs, its directory and its files; \<open>n\<close> bounds the IDs.\<close>

definition entity_rep ::
  "'w fs_ops \<Rightarrow> string \<Rightarrow> nat \<Rightarrow> 'w \<Rightarrow> int list option \<Rightarrow> (int \<rightharpoonup> string) option \<Rightarrow> string \<Rightarrow> bool" where
  "entity_rep fs root n w idso mo e \<longleftrightarrow>
     (case mo of
        None \<Rightarrow> idso = None \<and> fs_exists fs w (entity_at root e) = Inr False
      | Some m \<Rightarrow> (\<exists>ids. idso = Some ids \<and> ids_ok n ids \<and> set ids = dom m) \<and>
          fs_is_directory fs w (entity_at root e) = Inr True) \<and>
     (\<forall>i. in_int i \<longrightarrow> item_node fs w (item_at root e i) (case mo of None \<Rightarrow> None | Some m \<Rightarrow> m i))"

definition tree_rep :: "'w fs_ops \<Rightarrow> string \<Rightarrow> string set \<Rightarrow> 'w \<Rightarrow> bool" where
  "tree_rep fs root E w \<longleftrightarrow> fs_is_directory fs w root = Inr True \<and>
     (\<exists>files. fs_walk fs w root = Inr files \<and> (\<forall>f \<in> set files. tree_path root E f))"

definition store_rep ::
  "'w fs_ops \<Rightarrow> string \<Rightarrow> string set \<Rightarrow> nat \<Rightarrow> 'w api_state \<Rightarrow> store \<Rightarrow> bool" where
  "store_rep fs root E n s \<sigma> \<longleftrightarrow> storage_ok fs root E \<and> n \<le> id_cap \<and> tree_rep fs root E (world s) \<and>
     (\<forall>e \<in> E. entity_rep fs root n (world s) (path_counts s e) (\<sigma> e) e)"

lemma store_repD:
  assumes "store_rep fs root E n s \<sigma>"
  shows rep_storage: "storage_ok fs root E" and rep_cap: "n \<le> id_cap" and rep_tree: "tree_rep fs root E (world s)"
    and rep_entity: "e \<in> E \<Longrightarrow> entity_rep fs root n (world s) (path_counts s e) (\<sigma> e) e"
  using assms by (simp_all add: store_rep_def)

lemma rep_item:
  assumes "store_rep fs root E n s \<sigma>" and "e \<in> E" and "in_int i"
  shows "item_node fs (world s) (item_at root e i) (items \<sigma> e i)"
  using rep_entity [OF assms(1,2)] assms(3) by (auto simp: entity_rep_def items_def split: option.splits)

lemma rep_ids:
  assumes "store_rep fs root E n s \<sigma>" and "e \<in> E"
  shows "ids_ok n (ids_of (path_counts s) e)" and "set (ids_of (path_counts s) e) = dom (items \<sigma> e)"
  using rep_entity [OF assms] ids_ok_mono [OF api_ids.ok_empty]
  by (auto simp: entity_rep_def items_def ids_of_def split: option.splits)

lemma rep_item_int:
  assumes "store_rep fs root E n s \<sigma>" and "e \<in> E" and "items \<sigma> e i = Some c"
  shows "in_int i"
proof -
  have "i \<in> set (ids_of (path_counts s) e)" using rep_ids(2) [OF assms(1,2)] assms(3) by auto
  from ids_ok_in_int [OF rep_ids(1) [OF assms(1,2)] rep_cap [OF assms(1)] this] show ?thesis .
qed

lemma rep_cases [consumes 2, case_names absent present]:
  assumes "store_rep fs root E n s \<sigma>" and "e \<in> E"
  obtains "\<sigma> e = None" and "path_counts s e = None" and "fs_exists fs (world s) (entity_at root e) = Inr False"
  | m ids where "\<sigma> e = Some m" and "path_counts s e = Some ids" and "ids_ok n ids" and "set ids = dom m"
      and "fs_is_directory fs (world s) (entity_at root e) = Inr True"
  using rep_entity [OF assms] by (auto simp: entity_rep_def split: option.splits)

section \<open>The constructor finds nothing new\<close>

text \<open>A regular file below the root is an item whose ID is registered.\<close>

lemma known_file:
  assumes rep: "store_rep fs root E n s \<sigma>" and f: "tree_path root E f"
    and reg: "fs_is_regular_file fs (world s) f = Inr True"
  obtains e i ids where "path_counts s e = Some ids" and "i \<in> set ids" and "fs_absolute fs f \<noteq> []"
    and "is_digit (last (fs_absolute fs f))" and "stoi (fs_stem fs (fs_absolute fs f)) = Inr i"
    and "after_slash (before_slash (fs_absolute fs f)) = e"
proof -
  note st = rep_storage [OF rep]
  have nd: "fs_is_directory fs (world s) f = Inr False" "fs_exists fs (world s) f = Inr True"
    using fs_regular_not_directory [OF storage_lawful [OF st] reg] fs_regular_exists [OF storage_lawful [OF st] reg] by auto
  have "f \<noteq> root" using nd rep_tree [OF rep] by (auto simp: tree_rep_def)
  moreover have "f \<noteq> entity_at root e" if "e \<in> E" for e
    using rep that by (cases rule: rep_cases) (use nd in auto)
  ultimately obtain e i where e: "e \<in> E" and ii: "in_int i" and fi: "f = item_at root e i" using f by (auto simp: tree_path_def)
  have "items \<sigma> e i \<noteq> None" using rep_item [OF rep e ii] nd by (auto simp: item_node_def fi split: option.splits)
  then have i: "i \<in> set (ids_of (path_counts s) e)" using rep_ids(2) [OF rep e] by auto
  then obtain ids where pc: "path_counts s e = Some ids" by (cases "path_counts s e") (simp_all add: ids_of_def)
  note ii
  moreover obtain a where a: "fs_absolute fs f = item_at a e i" "fs_stem fs (item_at a e i) = to_string i"
    using storage_numbering [OF st e ii] unfolding fi by blast
  moreover have "item_at a e i = (a @ ''/'' @ e) @ CHR ''/'' # to_string i" by (simp add: item_at_def)
  moreover have "before_slash \<dots> = a @ CHR ''/'' # e"
    by (subst before_slash_simp) (simp_all add: to_string_no_bar)
  moreover have "after_slash (a @ CHR ''/'' # e) = e" using storage_names(2) [OF st e] by simp
  ultimately show thesis
    using i pc last_to_string [of i] by (intro that [of e ids i]) (simp_all add: ids_of_def)
qed

text \<open>The same holds with lists that have more IDs.\<close>

definition more_ids :: "(string \<rightharpoonup> int list) \<Rightarrow> (string \<rightharpoonup> int list) \<Rightarrow> bool" where
  "more_ids pc pc' \<longleftrightarrow> (\<forall>e ids. pc e = Some ids \<longrightarrow> (\<exists>ids'. pc' e = Some ids' \<and> set ids \<subseteq> set ids'))"

lemma more_ids_refl [simp]: "more_ids pc pc"
  by (simp add: more_ids_def)

lemma load_file_known:
  assumes rep: "store_rep fs root E n s \<sigma>" and pc: "more_ids (path_counts s) pc" and f: "tree_path root E f"
  shows "load_file fs (world s) f pc = Inr pc"
proof (cases "fs_is_regular_file fs (world s) f = Inr True")
  case False
  from storage_queryable [OF rep_storage [OF rep] f, of "world s"] False
  have "fs_is_regular_file fs (world s) f = Inr False" by (auto elim!: fs_queryableE)
  then show ?thesis by (simp add: load_file_def)
next
  case True
  with known_file [OF rep f] obtain e i ids where e: "path_counts s e = Some ids" "i \<in> set ids" and "fs_absolute fs f \<noteq> []"
    "is_digit (last (fs_absolute fs f))" "stoi (fs_stem fs (fs_absolute fs f)) = Inr i"
    "after_slash (before_slash (fs_absolute fs f)) = e" by metis
  moreover from pc e obtain ids' where "pc e = Some ids'" "i \<in> set ids'" unfolding more_ids_def by blast
  ultimately show ?thesis using True by (simp add: load_file_def ids_of_def insert_id_def fun_upd_idem)
qed

lemma load_files_known:
  assumes "store_rep fs root E n s \<sigma>" and "more_ids (path_counts s) pc" and "\<forall>f \<in> set files. tree_path root E f"
  shows "load_files fs (world s) files pc = Inr pc"
  using assms(3) by (induction files) (simp_all add: load_file_known [OF assms(1,2)])

lemma rep_walk:
  assumes "store_rep fs root E n s \<sigma>"
  obtains files where "fs_walk fs (world s) root = Inr files" and "\<forall>f \<in> set files. tree_path root E f"
  using rep_tree [OF assms] by (auto simp: tree_rep_def)

lemma api_load_more:
  assumes "store_rep fs root E n s \<sigma>" and "more_ids (path_counts s) pc"
  shows "api_load fs root (s\<lparr>path_counts := pc\<rparr>) = Inr (s\<lparr>path_counts := pc\<rparr>)"
proof -
  from assms(1) obtain files where "fs_walk fs (world s) root = Inr files" "\<forall>f \<in> set files. tree_path root E f"
    by (rule rep_walk)
  with load_files_known [OF assms] show ?thesis by (simp add: api_load_def)
qed

lemma api_load_known:
  assumes "store_rep fs root E n s \<sigma>"
  shows "api_load fs root s = Inr s"
  using api_load_more [OF assms more_ids_refl] by simp

section \<open>Changes to the disk\<close>

lemma item_node_same: "same_node fs w w' p \<Longrightarrow> item_node fs w' p co = item_node fs w p co"
  by (simp add: item_node_def same_node_def split: option.split)

lemma tree_rep_changed:
  assumes "tree_rep fs root E w" and "changed fs root E w w' p" and "tree_path root E p" and "p \<noteq> root"
  shows "tree_rep fs root E w'"
proof -
  have "same_node fs w w' root" using assms(2,4) by (auto simp: changed_def)
  moreover from assms(1) obtain files where "fs_walk fs w root = Inr files"
    and f: "\<forall>f \<in> set files. tree_path root E f" by (auto simp: tree_rep_def)
  with assms(2) obtain files' where "fs_walk fs w' root = Inr files'" "set files' \<subseteq> insert p (set files)"
    by (auto simp: changed_def)
  ultimately show ?thesis using assms(1,3) f by (auto simp: tree_rep_def same_node_def)
qed

lemma entity_rep_frame:
  assumes "entity_rep fs root n w idso mo e" and "changed fs root E w w' p" and "e \<in> E"
    and "p \<noteq> entity_at root e" and "\<forall>i. p \<noteq> item_at root e i" and "n \<le> n'"
  shows "entity_rep fs root n' w' idso mo e"
proof -
  have same: "same_node fs w w' q" if "tree_path root E q" "q \<noteq> p" for q
    using assms(2) that by (simp add: changed_def)
  note d = same [OF tree_pathI(2) [OF assms(3)] assms(4) [symmetric]]
  have i: "same_node fs w w' (item_at root e i)" if "in_int i" for i
    using same [OF tree_pathI(3) [OF assms(3) that]] assms(5) by metis
  have "ids_ok n ids \<Longrightarrow> ids_ok n' ids" for ids using ids_ok_mono assms(6) by blast
  with assms(1) d show ?thesis
    using item_node_same [OF i] by (cases mo) (auto simp: entity_rep_def same_node_def)
qed

text \<open>
  A state after a change to the entity \<open>e\<close> only: it represents the new store when \<open>e\<close> does.
\<close>

lemma store_rep_changed:
  assumes rep: "store_rep fs root E n s \<sigma>" and ch: "changed fs root E (world s) w' p" and e: "e \<in> E"
    and p: "p = entity_at root e \<or> (\<exists>i. in_int i \<and> p = item_at root e i)" and n: "n \<le> n'" "n' \<le> id_cap"
    and new: "entity_rep fs root n' w' (Some ids) (Some m) e"
  shows "store_rep fs root E n' (s\<lparr>world := w', path_counts := (path_counts s)(e \<mapsto> ids)\<rparr>) (\<sigma>(e \<mapsto> m))"
proof -
  note st = rep_storage [OF rep]
  have "tree_path root E p" "p \<noteq> root" using p e by auto
  with tree_rep_changed [OF rep_tree [OF rep] ch] have "tree_rep fs root E w'" by blast
  moreover have "entity_rep fs root n' w' (path_counts s e') (\<sigma> e') e'" if e': "e' \<in> E" "e' \<noteq> e" for e'
    using p e' e n(1) storage_names(2) [OF st]
    by (intro entity_rep_frame [OF rep_entity [OF rep e'(1)] ch e'(1)])
      (auto simp: item_at_eq_iff entity_not_item)
  ultimately show ?thesis using st n new by (auto simp: store_rep_def)
qed

lemma ensure_entity:
  assumes rep: "store_rep fs root E n s \<sigma>" and e: "e \<in> E"
  obtains w' where "ensure_directory fs (world s) (entity_at root e) = Inr (w', False)"
    and "store_rep fs root E n
      (s\<lparr>world := w', path_counts := (path_counts s)(e \<mapsto> ids_of (path_counts s) e)\<rparr>) (\<sigma>(e \<mapsto> items \<sigma> e))"
  using rep e
proof (cases rule: rep_cases)
  case absent
  note st = rep_storage [OF rep]
  have "fs_is_directory fs (world s) root = Inr True" using rep_tree [OF rep] by (simp add: tree_rep_def)
  from storage_create [OF st e this absent(3)] obtain w' where
    w': "fs_create_directory fs (world s) (entity_at root e) = (w', False)"
      "fs_is_directory fs w' (entity_at root e) = Inr True"
    and ch: "changed fs root E (world s) w' (entity_at root e)" by blast
  have "same_node fs (world s) w' (item_at root e i)" if "in_int i" for i
    using that ch e entity_not_item [OF storage_names(2) [OF st e]] by (auto simp: changed_def)
  from item_node_same [OF this] have "item_node fs w' (item_at root e i) None" if "in_int i" for i
    using that rep_item [OF rep e, of i] absent(1) by (simp add: items_def)
  then have "entity_rep fs root n w' (Some []) (Some Map.empty) e"
    using w'(2) ids_ok_mono [OF api_ids.ok_empty] by (simp add: entity_rep_def)
  from store_rep_changed [OF rep ch e _ _ rep_cap [OF rep] this] that [of w'] w'(1) absent
  show thesis by (simp add: ensure_directory_def ids_of_def items_def)
next
  case (present m ids)
  then have "ensure_directory fs (world s) (entity_at root e) = Inr (world s, False)"
    using fs_directory_exists [OF storage_lawful [OF rep_storage [OF rep]] present(5)]
    by (simp add: ensure_directory_def)
  with that [of "world s"] rep present show thesis by (simp add: ids_of_def items_def fun_upd_idem)
qed

lemma write_item:
  assumes rep: "store_rep fs root E n s \<sigma>" and e: "e \<in> E" and m: "\<sigma> e = Some m"
    and ids: "ids_ok n' ids" "set ids = insert i (dom m)" and i: "in_int i" and n: "n \<le> n'" "n' \<le> id_cap"
  shows "store_rep fs root E n'
    (s\<lparr>world := fs_write fs (world s) (item_at root e i) c, path_counts := (path_counts s)(e \<mapsto> ids)\<rparr>)
    (\<sigma>(e \<mapsto> m(i \<mapsto> c)))"
proof -
  note st = rep_storage [OF rep] and fs = storage_lawful [OF rep_storage [OF rep]]
  let ?p = "item_at root e i"
  have node: "item_node fs (world s) (item_at root e j) (m j)" if "in_int j" for j
    using rep_item [OF rep e that] m by (simp add: items_def)
  have dir: "fs_is_directory fs (world s) (entity_at root e) = Inr True"
    using rep_entity [OF rep e] m by (simp add: entity_rep_def)
  have "fs_is_directory fs (world s) ?p = Inr False"
    using node [OF i] exists_false(1) [OF st tree_pathI(3) [OF e i]] fs_regular_not_directory [OF fs]
    by (auto simp: item_node_def split: option.splits)
  from storage_write [OF st e i dir this, of c] have cw: "fs_can_write fs (world s) ?p"
    and ch: "changed fs root E (world s) (fs_write fs (world s) ?p c) ?p" by blast+
  have same: "same_node fs (world s) (fs_write fs (world s) ?p c) q" if "tree_path root E q" "q \<noteq> ?p" for q
    using ch that by (simp add: changed_def)
  have "item_node fs (fs_write fs (world s) ?p c) (item_at root e j) ((m(i \<mapsto> c)) j)" if j: "in_int j" for j
  proof (cases "j = i")
    case True
    then show ?thesis using fs_read_write [OF fs cw] fs_regular_write [OF fs cw] by (simp add: item_node_def)
  next
    case False
    then have "item_at root e j \<noteq> ?p" using storage_names(2) [OF st e] by (simp add: item_at_eq_iff)
    with False item_node_same [OF same [OF tree_pathI(3) [OF e j]]] node [OF j] show ?thesis by simp
  qed
  moreover have "fs_is_directory fs (fs_write fs (world s) ?p c) (entity_at root e) = Inr True"
    using same [of "entity_at root e"] dir e entity_not_item [OF storage_names(2) [OF st e]]
    by (auto simp: same_node_def)
  ultimately have "entity_rep fs root n' (fs_write fs (world s) ?p c) (Some ids) (Some (m(i \<mapsto> c))) e"
    using ids by (simp add: entity_rep_def)
  from store_rep_changed [OF rep ch e _ n this] i show ?thesis by blast
qed

lemma remove_item:
  assumes rep: "store_rep fs root E n s \<sigma>" and e: "e \<in> E" and m: "\<sigma> e = Some m" "m i = Some c"
    and pc: "path_counts s e = Some ids"
  obtains w' where "fs_remove fs (world s) (item_at root e i) = Inr (w', True)"
    and "store_rep fs root E n
      (s\<lparr>world := w', path_counts := (path_counts s)(e \<mapsto> release_id i ids)\<rparr>) (\<sigma>(e \<mapsto> m(i := None)))"
proof -
  note st = rep_storage [OF rep] and fs = storage_lawful [OF rep_storage [OF rep]]
  let ?p = "item_at root e i"
  have node: "item_node fs (world s) (item_at root e j) (m j)" if "in_int j" for j
    using rep_item [OF rep e that] m by (simp add: items_def)
  have dir: "fs_is_directory fs (world s) (entity_at root e) = Inr True"
    and ids: "ids_ok n ids" "set ids = dom m"
    using rep_entity [OF rep e] m pc by (simp_all add: entity_rep_def)
  have i: "in_int i" using rep_item_int [OF rep e, of i c] m by (simp add: items_def)
  have "fs_is_regular_file fs (world s) ?p = Inr True" using node [OF i] m(2) by (simp add: item_node_def)
  from storage_remove [OF st e i this] obtain w' where w': "fs_remove fs (world s) ?p = Inr (w', True)"
    and ch: "changed fs root E (world s) w' ?p" by blast
  have same: "same_node fs (world s) w' q" if "tree_path root E q" "q \<noteq> ?p" for q
    using ch that by (simp add: changed_def)
  have "item_node fs w' (item_at root e j) ((m(i := None)) j)" if j: "in_int j" for j
  proof (cases "j = i")
    case True
    then show ?thesis using fs_remove_gone [OF fs w'] by (simp add: item_node_def)
  next
    case False
    then have "item_at root e j \<noteq> ?p" using storage_names(2) [OF st e] by (simp add: item_at_eq_iff)
    with False item_node_same [OF same [OF tree_pathI(3) [OF e j]]] node [OF j] show ?thesis by simp
  qed
  moreover have "fs_is_directory fs w' (entity_at root e) = Inr True"
    using same [of "entity_at root e"] dir e entity_not_item [OF storage_names(2) [OF st e]]
    by (auto simp: same_node_def)
  ultimately have "entity_rep fs root n w' (Some (release_id i ids)) (Some (m(i := None))) e"
    using api_ids.rel_law [OF ids(1), of i] ids(2) by (auto simp: entity_rep_def)
  from store_rep_changed [OF rep ch e _ _ rep_cap [OF rep] this] i w' that show thesis by blast
qed

section \<open>The simulation\<close>

lemma api_exec_step:
  assumes "store_rep fs root E n s \<sigma>"
    and "api_handle_request fs
      \<lparr>api_location = loc, api_root = root, api_url = req_target (op_request op), api_profile = p\<rparr>
      s (op_request op) new_response = Inr out"
  shows "api_exec fs loc root s (p, op) = Inr (out_state out, out_status out, res_body (out_res out))"
  using assms(2) by (simp add: api_exec_def api_load_known [OF assms(1)])

lemma send_bad_request_body [simp]: "res_body (out_res (send_bad_request h s res)) = res_body res @ bad_body"
  by (simp add: send_bad_request_def)

lemma exec_denied:
  assumes rep: "store_rep fs root E n s \<sigma>" and e: "op_entity op \<in> E"
    and "writes op" and "\<not> login_status p"
  shows "api_exec fs loc root s (p, op) = Inr (s, Status_bad_request, bad_body)"
proof -
  let ?h = "\<lparr>api_location = loc, api_root = root, api_url = req_target (op_request op), api_profile = p\<rparr>"
  have "api_handle_request fs ?h s (op_request op) new_response = Inr (send_bad_request ?h s new_response)"
    using assms(3,4) by (cases op) (simp_all add: api_handle_request_def api_request_def Let_def)
  from api_exec_step [OF rep this] show ?thesis by simp
qed

lemma exec_post:
  assumes rep: "store_rep fs root E n s \<sigma>" and e: "e \<in> E" and p: "login_status p" and n: "n < id_cap"
  shows "\<exists>s' \<sigma>' st b'. api_exec fs loc root s (p, Post e b) = Inr (s', st, b') \<and>
    store_step root \<sigma> (p, Post e b) \<sigma>' st b' \<and> store_rep fs root E (Suc n) s' \<sigma>'"
proof -
  let ?h = "\<lparr>api_location = loc, api_root = root, api_url = req_target (op_request (Post e b)), api_profile = p\<rparr>"
  note names = storage_names [OF rep_storage [OF rep] e]
  obtain w' where w': "ensure_directory fs (world s) (entity_at root e) = Inr (w', False)"
    and rep1: "store_rep fs root E n
      (s\<lparr>world := w', path_counts := (path_counts s)(e \<mapsto> ids_of (path_counts s) e)\<rparr>) (\<sigma>(e \<mapsto> items \<sigma> e))"
    by (rule ensure_entity [OF rep e])
  from api_ids.nxt_law [OF rep_ids(1) [OF rep e] n] obtain i ids' where
    nx: "next_id (ids_of (path_counts s) e) = Inr (i, ids')" and fresh: "i \<notin> set (ids_of (path_counts s) e)"
    and ids': "set ids' = insert i (set (ids_of (path_counts s) e))" "ids_ok (Suc n) ids'" by blast
  define s' where "s' = s\<lparr>world := fs_write fs w' (item_at root e i) b, path_counts := (path_counts s)(e \<mapsto> ids')\<rparr>"
  have "get_next_id (path_counts s) e = Inr (i, (path_counts s)(e \<mapsto> ids'))" using nx by (simp add: get_next_id_def)
  from handle_post_result [of fs s ?h e w', OF _ this, of "op_request (Post e b)" new_response] w'
  have "api_exec fs loc root s (p, Post e b) = Inr (s', Status_created, created_body (root @ ''/'' @ e) i)"
    using names p
    by (subst api_exec_step [OF rep])
      (auto simp: api_handle_request_entity entity_at_def item_at_def item_path_def s'_def)
  moreover have "items \<sigma> e i = None" using fresh rep_ids(2) [OF rep e] by auto
  from store_step.post [OF p this]
  have "store_step root \<sigma> (p, Post e b) (\<sigma>(e \<mapsto> (items \<sigma> e)(i \<mapsto> b))) Status_created
      (created_body (root @ ''/'' @ e) i)" .
  moreover have "store_rep fs root E (Suc n) s' (\<sigma>(e \<mapsto> (items \<sigma> e)(i \<mapsto> b)))"
    using write_item [OF rep1 e _ ids'(2), of "items \<sigma> e" i b] ids'(1) rep_ids(2) [OF rep e] n
      ids_ok_in_int [OF ids'(2), of i] by (simp add: s'_def)
  ultimately show ?thesis by blast
qed

lemma item_queries:
  assumes rep: "store_rep fs root E n s \<sigma>" and e: "e \<in> E"
  shows "items \<sigma> e i = None \<Longrightarrow> in_int i \<Longrightarrow> fs_exists fs (world s) (item_at root e i) = Inr False"
    and "items \<sigma> e i = Some c \<Longrightarrow> fs_exists fs (world s) (item_at root e i) = Inr True \<and>
      fs_is_directory fs (world s) (item_at root e i) = Inr False \<and>
      fs_read fs (world s) (item_at root e i) = Some c \<and>
      (\<exists>m ids. \<sigma> e = Some m \<and> m i = Some c \<and> path_counts s e = Some ids \<and> i \<in> set ids \<and>
         ids_ok n ids \<and> set ids = dom m)"
proof -
  note fs = storage_lawful [OF rep_storage [OF rep]]
  show "items \<sigma> e i = None \<Longrightarrow> in_int i \<Longrightarrow> fs_exists fs (world s) (item_at root e i) = Inr False"
    using rep_item [OF rep e, of i] by (simp add: item_node_def)
  assume i: "items \<sigma> e i = Some c"
  then have r: "fs_is_regular_file fs (world s) (item_at root e i) = Inr True"
    and "fs_read fs (world s) (item_at root e i) = Some c" using rep_item [OF rep e rep_item_int [OF rep e i]] by (simp_all add: item_node_def)
  moreover from rep e i have "\<exists>m ids. \<sigma> e = Some m \<and> m i = Some c \<and> path_counts s e = Some ids \<and> i \<in> set ids \<and>
         ids_ok n ids \<and> set ids = dom m"
    by (cases rule: rep_cases) (auto simp: items_def)
  ultimately show "fs_exists fs (world s) (item_at root e i) = Inr True \<and>
      fs_is_directory fs (world s) (item_at root e i) = Inr False \<and>
      fs_read fs (world s) (item_at root e i) = Some c \<and>
      (\<exists>m ids. \<sigma> e = Some m \<and> m i = Some c \<and> path_counts s e = Some ids \<and> i \<in> set ids \<and>
         ids_ok n ids \<and> set ids = dom m)"
    using fs_regular_exists [OF fs r] fs_regular_not_directory [OF fs r] by blast
qed

text \<open>A request for an item that is not there.\<close>

lemma exec_missing:
  assumes rep: "store_rep fs root E n s \<sigma>" and e: "e \<in> E" and i: "items \<sigma> e i = None" "in_int i"
    and op: "op \<in> {Get e i, Put e i b, Delete e i}" and p: "writes op \<Longrightarrow> login_status p"
  shows "api_exec fs loc root s (p, op) = Inr (s, Status_bad_request, bad_body)"
proof -
  let ?h = "\<lparr>api_location = loc, api_root = root, api_url = req_target (op_request op), api_profile = p\<rparr>"
  have x: "fs_exists fs (world s) (root @ ''/'' @ e @ ''/'' @ to_string i) = Inr False"
    using item_queries(1) [OF rep e i(1)] i(2) by (simp add: item_at_def)
  have "api_handle_request fs ?h s (op_request op) new_response = Inr (send_bad_request ?h s new_response)"
    using op p x
    by (auto simp: api_handle_request_item handle_get_def handle_put_def handle_delete_def Let_def)
  from api_exec_step [OF rep this] show ?thesis by simp
qed

lemma exec_get:
  assumes rep: "store_rep fs root E n s \<sigma>" and e: "e \<in> E" and i: "items \<sigma> e i = Some c" "in_int i"
  shows "api_exec fs loc root s (p, Get e i) = Inr (s, Status_ok, c)"
proof -
  let ?h = "\<lparr>api_location = loc, api_root = root, api_url = req_target (op_request (Get e i)), api_profile = p\<rparr>"
  have "handle_get fs ?h s req new_response (e @ ''/'' @ to_string i) = Inr (send_ok ?h s c new_response)" for req
    using item_queries(2) [OF rep e i(1)] i(2)
    by (intro handle_get_item) (auto simp: registered_def ids_of_def item_path_def item_at_def)
  then have "api_handle_request fs ?h s (op_request (Get e i)) new_response = Inr (send_ok ?h s c new_response)"
    by (simp add: api_handle_request_item)
  from api_exec_step [OF rep this] show ?thesis by simp
qed

lemma exec_put:
  assumes rep: "store_rep fs root E n s \<sigma>" and e: "e \<in> E" and i: "items \<sigma> e i = Some c" "in_int i"
    and p: "login_status p"
  shows "api_exec fs loc root s (p, Put e i b) =
      Inr (s\<lparr>world := fs_write fs (world s) (item_at root e i) b\<rparr>, Status_ok, b)"
    and "store_rep fs root E n (s\<lparr>world := fs_write fs (world s) (item_at root e i) b\<rparr>)
      (\<sigma>(e \<mapsto> (items \<sigma> e)(i \<mapsto> b)))"
proof -
  let ?h = "\<lparr>api_location = loc, api_root = root, api_url = req_target (op_request (Put e i b)), api_profile = p\<rparr>"
  define s' where "s' = s\<lparr>world := fs_write fs (world s) (item_at root e i) b\<rparr>"
  from item_queries(2) [OF rep e i(1)] obtain m ids where q: "\<sigma> e = Some m" "m i = Some c"
    "path_counts s e = Some ids" "ids_ok n ids" "set ids = dom m"
    and x: "fs_exists fs (world s) (item_at root e i) = Inr True"
      "fs_is_directory fs (world s) (item_at root e i) = Inr False" by blast
  have "handle_put fs ?h s (op_request (Put e i b)) new_response (e @ ''/'' @ to_string i) =
      Inr (send_ok ?h s' b new_response)"
    using x i(2) by (simp add: handle_put_def Let_def item_at_def s'_def to_string_no_bar)
  then have "api_handle_request fs ?h s (op_request (Put e i b)) new_response = Inr (send_ok ?h s' b new_response)"
    using p by (simp add: api_handle_request_item)
  from api_exec_step [OF rep this] show "api_exec fs loc root s (p, Put e i b) =
      Inr (s\<lparr>world := fs_write fs (world s) (item_at root e i) b\<rparr>, Status_ok, b)" by (simp add: s'_def)
  have "s' = s\<lparr>world := fs_write fs (world s) (item_at root e i) b, path_counts := (path_counts s)(e \<mapsto> ids)\<rparr>"
    using q(3) by (simp add: s'_def fun_upd_idem)
  with write_item [OF rep e q(1,4), of i b] q i(2) rep_cap [OF rep]
  show "store_rep fs root E n (s\<lparr>world := fs_write fs (world s) (item_at root e i) b\<rparr>)
      (\<sigma>(e \<mapsto> (items \<sigma> e)(i \<mapsto> b)))" by (auto simp: items_def s'_def)
qed

lemma exec_delete:
  assumes rep: "store_rep fs root E n s \<sigma>" and e: "e \<in> E" and i: "items \<sigma> e i = Some c" "in_int i"
    and p: "login_status p"
  shows "\<exists>s'. api_exec fs loc root s (p, Delete e i) = Inr (s', Status_ok, deleted_body) \<and>
    store_rep fs root E n s' (\<sigma>(e \<mapsto> (items \<sigma> e)(i := None)))"
proof -
  let ?h = "\<lparr>api_location = loc, api_root = root, api_url = req_target (op_request (Delete e i)), api_profile = p\<rparr>"
  from item_queries(2) [OF rep e i(1)] obtain m ids where q: "\<sigma> e = Some m" "m i = Some c"
    "path_counts s e = Some ids" "i \<in> set ids"
    and x: "fs_exists fs (world s) (item_at root e i) = Inr True"
      "fs_is_directory fs (world s) (item_at root e i) = Inr False" by blast
  obtain w' where w': "fs_remove fs (world s) (item_at root e i) = Inr (w', True)"
    and rep': "store_rep fs root E n
      (s\<lparr>world := w', path_counts := (path_counts s)(e \<mapsto> release_id i ids)\<rparr>) (\<sigma>(e \<mapsto> m(i := None)))"
    by (rule remove_item [OF rep e q(1-3)])
  let ?s = "s\<lparr>world := w', path_counts := (path_counts s)(e \<mapsto> release_id i ids)\<rparr>"
  have "handle_delete fs ?h s (op_request (Delete e i)) new_response (e @ ''/'' @ to_string i) =
      Inr (send_ok ?h ?s deleted_body new_response)"
    using x w' q i(2) by (simp add: handle_delete_def Let_def item_at_def to_string_no_bar)
  then have "api_handle_request fs ?h s (op_request (Delete e i)) new_response =
      Inr (send_ok ?h ?s deleted_body new_response)" using p by (simp add: api_handle_request_item)
  from api_exec_step [OF rep this] rep' q(1) show ?thesis by (auto simp: items_def)
qed

lemma exec_list:
  assumes rep: "store_rep fs root E n s \<sigma>" and e: "e \<in> E"
  shows "api_exec fs loc root s (p, List e) = Inr (s, case path_counts s e of
      None \<Rightarrow> (Status_bad_request, bad_body) | Some ids \<Rightarrow> (Status_ok, list_body ids))"
proof -
  let ?h = "\<lparr>api_location = loc, api_root = root, api_url = req_target (op_request (List e)), api_profile = p\<rparr>"
  note names = storage_names [OF rep_storage [OF rep] e]
  from rep e show ?thesis
  proof (cases rule: rep_cases)
    case absent
    have "fs_is_directory fs (world s) (entity_at root e) = Inr False"
      using exists_false(1) [OF rep_storage [OF rep] tree_pathI(2) [OF e] absent(3)] .
    then have "api_handle_request fs ?h s (op_request (List e)) new_response = Inr (send_bad_request ?h s new_response)"
      using names by (simp add: api_handle_request_entity handle_list_def entity_at_def)
    from api_exec_step [OF rep this] absent(2) show ?thesis by simp
  next
    case (present m ids)
    then have "api_handle_request fs ?h s (op_request (List e)) new_response =
        Inr (send_ok ?h s (list_body ids) new_response)"
      using names by (simp add: api_handle_request_entity handle_list_def entity_at_def)
    from api_exec_step [OF rep this] present(2) show ?thesis by simp
  qed
qed

lemma list_step:
  assumes rep: "store_rep fs root E n s \<sigma>" and e: "e \<in> E"
  shows "case path_counts s e of
      None \<Rightarrow> store_step root \<sigma> (p, List e) \<sigma> Status_bad_request bad_body
    | Some ids \<Rightarrow> store_step root \<sigma> (p, List e) \<sigma> Status_ok (list_body ids)"
  using rep e
proof (cases rule: rep_cases)
  case absent
  then show ?thesis using store_step.list_missing [of \<sigma> e root p] by simp
next
  case (present m ids)
  then show ?thesis using store_step.list_found [of \<sigma> e m ids root p] ids_ok_distinct by simp
qed

lemma entity_rep_mono:
  assumes "entity_rep fs root n w idso mo e" and "n \<le> n'"
  shows "entity_rep fs root n' w idso mo e"
proof -
  have "ids_ok n ids \<Longrightarrow> ids_ok n' ids" for ids using ids_ok_mono assms(2) by blast
  with assms(1) show ?thesis unfolding entity_rep_def by (cases mo) auto
qed

lemma store_rep_Suc: "store_rep fs root E n s \<sigma> \<Longrightarrow> n < id_cap \<Longrightarrow> store_rep fs root E (Suc n) s \<sigma>"
  using entity_rep_mono [of fs root n] by (simp add: store_rep_def)

text \<open>The requests that name an item, whether it is there or not.\<close>

lemma exec_item_step:
  assumes rep: "store_rep fs root E n s \<sigma>" and n: "n < id_cap" and e: "e \<in> E" and i: "in_int i"
    and op: "op = Get e i \<or> op = Put e i b \<or> op = Delete e i" and p: "writes op \<Longrightarrow> login_status p"
  shows "\<exists>s' \<sigma>' st b'. api_exec fs loc root s (p, op) = Inr (s', st, b') \<and>
    store_step root \<sigma> (p, op) \<sigma>' st b' \<and> store_rep fs root E (Suc n) s' \<sigma>'"
proof (cases "items \<sigma> e i")
  case None
  have "api_exec fs loc root s (p, op) = Inr (s, Status_bad_request, bad_body)"
    using op p by (intro exec_missing [OF rep e None i, of op b]) auto
  moreover have "store_step root \<sigma> (p, op) \<sigma> Status_bad_request bad_body"
    using op p None by (auto intro: get_missing put_missing delete_missing)
  ultimately show ?thesis using store_rep_Suc [OF rep n] by blast
next
  case (Some c)
  from op consider "op = Get e i" | "op = Put e i b" | "op = Delete e i" by blast
  then show ?thesis
  proof cases
    case 1
    with exec_get [OF rep e Some i] get_found [of \<sigma> e i c root p, OF Some] store_rep_Suc [OF rep n]
    show ?thesis by blast
  next
    case 2
    with p have l: "login_status p" by simp
    from 2 exec_put [OF rep e Some i l] put_found [of p, OF l Some, of root b] store_rep_Suc [OF _ n]
    show ?thesis by blast
  next
    case 3
    with p have l: "login_status p" by simp
    from 3 exec_delete [OF rep e Some i l, of loc] delete_found [of p, OF l Some, of root] store_rep_Suc [OF _ n]
    show ?thesis by blast
  qed
qed

section \<open>The interface\<close>

text \<open>The requests of a run: a known entity name and IDs that are values of an \<^verbatim>\<open>int\<close>.\<close>

fun client_ok :: "string set \<Rightarrow> client_op \<Rightarrow> bool" where
  "client_ok E (p, op) \<longleftrightarrow> op_entity op \<in> E \<and> op_id_ok op"

fun touches :: "string \<Rightarrow> int \<Rightarrow> client_op \<Rightarrow> bool" where
  "touches e i (p, Put e' j b) \<longleftrightarrow> e' = e \<and> j = i"
| "touches e i (p, Delete e' j) \<longleftrightarrow> e' = e \<and> j = i"
| "touches e i (p, _) \<longleftrightarrow> False"

lemma items_upd [simp]: "items (\<sigma>(e \<mapsto> m)) e' = (if e' = e then m else items \<sigma> e')"
  by (simp add: items_def)

lemma store_step_keeps:
  assumes "store_step root \<sigma> op \<sigma>' st b" and "\<not> touches e i op" and "items \<sigma> e i = Some c"
  shows "items \<sigma>' e i = Some c"
  using assms by cases auto

lemma store_run_keeps:
  "store_run root \<sigma> ops rs \<sigma>' \<Longrightarrow> list_all (\<lambda>op. \<not> touches e i op) ops \<Longrightarrow> items \<sigma> e i = Some c \<Longrightarrow>
     items \<sigma>' e i = Some c"
  by (induction rule: store_run.induct) (auto dest: store_step_keeps)

text \<open>
  What the server promises its clients for one request: an answer the specification allows,
  and a state that represents the new store. The law is stated for the first \<open>cap\<close> requests.
\<close>

locale item_store =
  fixes rep :: "nat \<Rightarrow> 's \<Rightarrow> store \<Rightarrow> bool"
    and ex :: "'s \<Rightarrow> client_op \<Rightarrow> ('s \<times> status \<times> string) result"
    and ok_op :: "client_op \<Rightarrow> bool"
    and root :: string
    and cap :: nat
  assumes step_law: "rep n s \<sigma> \<Longrightarrow> n < cap \<Longrightarrow> ok_op op \<Longrightarrow>
      \<exists>s' \<sigma>' st b. ex s op = Inr (s', st, b) \<and> store_step root \<sigma> op \<sigma>' st b \<and> rep (Suc n) s' \<sigma>'"
    and read_law: "rep n s \<sigma> \<Longrightarrow> ok_op (p, List e) \<Longrightarrow> items \<sigma> e i = Some c \<Longrightarrow> ok_op (p, Get e i)"
begin

lemma run_refines:
  "rep n s \<sigma> \<Longrightarrow> n + length ops \<le> cap \<Longrightarrow> list_all ok_op ops \<Longrightarrow>
     \<exists>s' rs \<sigma>'. exec_run ex s ops = Inr (s', rs) \<and> store_run root \<sigma> ops rs \<sigma>' \<and> rep (n + length ops) s' \<sigma>'"
proof (induction ops arbitrary: n s \<sigma>)
  case Nil
  then show ?case using run_nil by auto
next
  case (Cons op ops)
  from step_law [of n s \<sigma> op] Cons.prems obtain s1 \<sigma>1 st b where
    1: "ex s op = Inr (s1, st, b)" "store_step root \<sigma> op \<sigma>1 st b" "rep (Suc n) s1 \<sigma>1" by auto
  from Cons.IH [OF 1(3)] Cons.prems obtain s2 rs \<sigma>2 where
    "exec_run ex s1 ops = Inr (s2, rs)" "store_run root \<sigma>1 ops rs \<sigma>2" "rep (Suc n + length ops) s2 \<sigma>2" by auto
  with 1 show ?case by (auto intro: run_cons)
qed

lemma kept_item:
  assumes rep: "rep n s \<sigma>" and len: "n + length ops < cap" and ok: "list_all ok_op ops" "ok_op (q, List e)"
    and keep: "list_all (\<lambda>op. \<not> touches e i op) ops" and i: "items \<sigma> e i = Some c"
  shows "\<exists>s' rs s2. exec_run ex s ops = Inr (s', rs) \<and> ex s' (q, Get e i) = Inr (s2, Status_ok, c)"
proof -
  from run_refines [OF rep _ ok(1)] len obtain s' rs \<sigma>' where 1: "exec_run ex s ops = Inr (s', rs)"
    "store_run root \<sigma> ops rs \<sigma>'" "rep (n + length ops) s' \<sigma>'" by auto
  note i' = store_run_keeps [OF 1(2) keep i]
  from step_law [OF 1(3) len read_law [OF 1(3) ok(2) i']] obtain s2 \<sigma>2 st b where
    "ex s' (q, Get e i) = Inr (s2, st, b)" and "store_step root \<sigma>' (q, Get e i) \<sigma>2 st b" by blast
  with 1(1) i' show ?thesis by (auto elim!: store_step_getE)
qed

lemma posted_item:
  assumes rep: "rep n s \<sigma>" and len: "Suc (n + length ops) < cap" and p: "login_status p"
    and ok: "list_all ok_op ops" "ok_op (p, Post e b)" "ok_op (q, List e)"
  shows "\<exists>s1 i. ex s (p, Post e b) = Inr (s1, Status_created, created_body (root @ ''/'' @ e) i) \<and>
    (list_all (\<lambda>op. \<not> touches e i op) ops \<longrightarrow>
      (\<exists>s2 rs s3. exec_run ex s1 ops = Inr (s2, rs) \<and> ex s2 (q, Get e i) = Inr (s3, Status_ok, b)))"
proof -
  from step_law [OF rep _ ok(2)] len obtain s1 \<sigma>1 st b' where
    1: "ex s (p, Post e b) = Inr (s1, st, b')" "store_step root \<sigma> (p, Post e b) \<sigma>1 st b'" "rep (Suc n) s1 \<sigma>1" by auto
  from 1(2) p obtain i where "st = Status_created" "b' = created_body (root @ ''/'' @ e) i"
    and i: "items \<sigma>1 e i = Some b" by cases auto
  with 1 kept_item [OF 1(3) _ ok(1,3) _ i] len show ?thesis by auto
qed

end

interpretation api_store: item_store "store_rep fs root E" "api_exec fs loc root" "client_ok E" root id_cap
  for fs loc root E
proof
  fix n s \<sigma> op
  assume rep: "store_rep fs root E n s \<sigma>" and n: "n < id_cap" and ok: "client_ok E op"
  obtain p o1 where op: "op = (p, o1)" by (cases op)
  note keep = store_rep_Suc [OF _ n]
  from ok op have e: "op_entity o1 \<in> E" and i: "op_id_ok o1" by simp_all
  show "\<exists>s' \<sigma>' st b. api_exec fs loc root s op = Inr (s', st, b) \<and> store_step root \<sigma> op \<sigma>' st b \<and>
      store_rep fs root E (Suc n) s' \<sigma>'"
  proof (cases "writes o1 \<and> \<not> login_status p")
    case True
    with exec_denied [OF rep e] keep [OF rep] store_step.denied [of p o1] show ?thesis unfolding op by blast
  next
    case False
    show ?thesis
    proof (cases o1)
      case (Post e b)
      with False exec_post [OF rep _ _ n, of e p] e show ?thesis unfolding op by simp
    next
      case (List e)
      with exec_list [OF rep, of e] list_step [OF rep, of e p] e keep [OF rep] show ?thesis
        unfolding op by (cases "path_counts s e") auto
    next
      case (Get e j)
      then show ?thesis unfolding op using e i by (intro exec_item_step [OF rep n, of e j]) auto
    next
      case (Put e j b)
      then show ?thesis unfolding op using e i False by (intro exec_item_step [OF rep n, of e j _ b]) auto
    next
      case (Delete e j)
      then show ?thesis unfolding op using e i False by (intro exec_item_step [OF rep n, of e j]) auto
    qed
  qed
next
  fix n s \<sigma> p e i c
  assume rep: "store_rep fs root E n s \<sigma>" and ok: "client_ok E (p, List e)" and i: "items \<sigma> e i = Some c"
  then have e: "e \<in> E" by simp
  from rep_item_int [OF rep e i] e show "client_ok E (p, Get e i)" by simp
qed

section \<open>Properties\<close>

lemma fresh_root:
  assumes "storage_ok fs root E" and "fs_is_directory fs w root = Inr True" and "fs_walk fs w root = Inr []"
    and "\<forall>p. tree_path root E p \<and> p \<noteq> root \<longrightarrow> fs_exists fs w p = Inr False"
  shows "store_rep fs root E 0 \<lparr>world = w, path_counts = Map.empty\<rparr> Map.empty"
proof -
  have "fs_exists fs w (entity_at root e) = Inr False" "in_int i \<Longrightarrow> fs_exists fs w (item_at root e i) = Inr False" if "e \<in> E" for e i
    using assms(4) that by auto
  then show ?thesis using assms(1-3) by (simp add: store_rep_def tree_rep_def entity_rep_def item_node_def)
qed

text \<open>
  C13. The API implements a store: start with an empty root directory on a disk that works and let
  any clients send any requests about the entities in \<open>E\<close>, one after the other, fewer than
  \<open>2\<^sup>3\<^sup>1\<close>. Then every request is answered, without an exception, and the answers are those
  of the specification: writes of clients that are not logged in are refused, a POST stores
  under an ID not in use, GET, PUT and DELETE find exactly the items that are stored, a list
  has each stored ID once.
\<close>

theorem api_implements_store:
  assumes "storage_ok fs root E" and "fs_is_directory fs w root = Inr True" and "fs_walk fs w root = Inr []"
    and "\<forall>p. tree_path root E p \<and> p \<noteq> root \<longrightarrow> fs_exists fs w p = Inr False"
    and "list_all (client_ok E) ops" and "length ops \<le> id_cap"
  shows "\<exists>s' rs \<sigma>'. exec_run (api_exec fs loc root) \<lparr>world = w, path_counts = Map.empty\<rparr> ops = Inr (s', rs) \<and>
    store_run root Map.empty ops rs \<sigma>' \<and> store_rep fs root E (length ops) s' \<sigma>'"
  using api_store.run_refines [OF fresh_root [OF assms(1-4)], of ops loc] assms(5,6) by simp

text \<open>
  What is posted stays: a POST of a logged-in client is answered with 201 and an ID, and
  after any further requests of any clients, as long as none of them puts or deletes that item,
  a GET of the ID by anybody is answered with 200 and the posted content.
\<close>

theorem posted_item_stays:
  assumes "store_rep fs root E n s \<sigma>" and "Suc (n + length ops) < id_cap" and "login_status p" and "e \<in> E"
    and "list_all (client_ok E) ops"
  shows "\<exists>s1 i. api_exec fs loc root s (p, Post e b) =
      Inr (s1, Status_created, created_body (root @ ''/'' @ e) i) \<and>
    (list_all (\<lambda>op. \<not> touches e i op) ops \<longrightarrow>
      (\<exists>s2 rs s3. exec_run (api_exec fs loc root) s1 ops = Inr (s2, rs) \<and>
         api_exec fs loc root s2 (q, Get e i) = Inr (s3, Status_ok, b)))"
  using assms by (intro api_store.posted_item) simp_all

section \<open>Instances\<close>

lemma map_of_mem_put: "map_of (mem_put w p nd) q = (if q = p then Some nd else map_of w q)"
  by (auto simp: mem_put_def map_of_filter_neq)

lemma keys_mem_put: "fst ` set (mem_put w p nd) \<subseteq> insert p (fst ` set w)"
  by (auto simp: mem_put_def)

lemma mem_changed:
  assumes "\<forall>q. q \<noteq> p \<longrightarrow> map_of w' q = map_of w q" and "p \<noteq> root" and "fst ` set w' \<subseteq> insert p (fst ` set w)"
  shows "changed mem_fs root E w w' p"
proof -
  have keys: "set (map fst (filter (\<lambda>e. P (fst e)) l)) = {x \<in> fst ` set l. P x}" for P and l :: mem_world by auto
  have "set (map fst (filter (\<lambda>e. prefix (root @ ''/'') (fst e)) w')) \<subseteq>
      insert p (set (map fst (filter (\<lambda>e. prefix (root @ ''/'') (fst e)) w)))"
    unfolding keys [of "prefix (root @ ''/'')"] using assms(3) by auto
  then show ?thesis using assms(1,2) by (simp add: changed_def same_node_def mem_fs_def mem_file_def)
qed

lemma mem_storage_ok:
  assumes "\<forall>e \<in> E. e \<noteq> [] \<and> CHR ''/'' \<notin> set e"
  shows "storage_ok mem_fs root E"
proof -
  have "fs_stem mem_fs (item_at a e i) = to_string i" for a e i
    using rfind_char_append_notin [of "CHR ''/''" "to_string i" "a @ ''/'' @ e"]
    by (simp add: mem_fs_def item_at_def to_string_no_bar)
  moreover have "fs_absolute mem_fs p = p" for p by (simp add: mem_fs_def)
  moreover have "fs_queryable mem_fs w p" for w p by (simp add: fs_queryable_def mem_fs_def)
  moreover have put: "changed mem_fs root E w (mem_put w p nd) p" if "p \<noteq> root" for w p nd
    using that keys_mem_put by (intro mem_changed) (simp_all add: map_of_mem_put)
  moreover have "changed mem_fs root E w (filter (\<lambda>e. fst e \<noteq> p) w) p" if "p \<noteq> root" for w p
  proof (rule mem_changed)
    show "\<forall>q. q \<noteq> p \<longrightarrow> map_of (filter (\<lambda>e. fst e \<noteq> p) w) q = map_of w q" by (simp only: map_of_filter_neq) simp
  qed (use that in auto)
  ultimately show ?thesis
    unfolding storage_ok_def using assms mem_fs_lawful
    by (intro conjI ballI allI impI)
      (auto simp: mem_fs_def mem_put_def mem_file_def split: option.splits node.splits)
qed

definition demo_user :: user_profile where
  "demo_user = \<lparr>user_id = 7, username = ''u'', email = ''e'', login_status = True\<rparr>"

definition demo_visitor :: user_profile where
  "demo_visitor = \<lparr>user_id = 0, username = [], email = [], login_status = False\<rparr>"

definition demo_ops :: "client_op list" where
  "demo_ops = [(demo_user, Post ''S'' ''a''), (demo_visitor, Delete ''S'' 1), (demo_user, Put ''S'' 1 ''b''),
     (demo_visitor, Get ''S'' 1), (demo_visitor, List ''S'')]"

definition demo_root :: mem_world where
  "demo_root = [(''r'', Dir)]"

lemma demo_storage: "storage_ok mem_fs ''r'' {''S''}"
  by (rule mem_storage_ok) simp

lemma demo_fresh:
  "fs_is_directory mem_fs demo_root ''r'' = Inr True" "fs_walk mem_fs demo_root ''r'' = Inr []"
  "\<forall>p. tree_path ''r'' {''S''} p \<and> p \<noteq> ''r'' \<longrightarrow> fs_exists mem_fs demo_root p = Inr False"
  by (simp_all add: mem_fs_def demo_root_def)

lemma api_implements_store_witness:
  "\<exists>s' rs \<sigma>'. exec_run (api_exec mem_fs ''/api'' ''r'') \<lparr>world = demo_root, path_counts = Map.empty\<rparr> demo_ops = Inr (s', rs) \<and>
    store_run ''r'' Map.empty demo_ops rs \<sigma>' \<and> store_rep mem_fs ''r'' {''S''} (length demo_ops) s' \<sigma>'"
  by (rule api_implements_store [OF demo_storage demo_fresh]) (simp_all add: demo_ops_def in_int_code id_cap_def)

lemma posted_item_stays_witness:
  "\<exists>s1 i s2 rs s3. api_exec mem_fs ''/api'' ''r'' \<lparr>world = demo_root, path_counts = Map.empty\<rparr>
       (demo_user, Post ''S'' ''a'') = Inr (s1, Status_created, created_body (''r'' @ ''/'' @ ''S'') i) \<and>
     exec_run (api_exec mem_fs ''/api'' ''r'') s1 [(demo_user, Post ''S'' ''b'')] = Inr (s2, rs) \<and>
     api_exec mem_fs ''/api'' ''r'' s2 (demo_visitor, Get ''S'' i) = Inr (s3, Status_ok, ''a'')"
  using posted_item_stays [OF fresh_root [OF demo_storage demo_fresh], of "[(demo_user, Post ''S'' ''b'')]"
      demo_user "''S''" "''/api''" "''a''" demo_visitor]
  by (simp add: id_cap_def demo_user_def del: exec_run.simps append.simps)

end
