(* ===== verification/Api_Threads.thy ===== *)
theory Api_Threads
  imports Api_Store
begin

text \<open>
  The API handler as a thread among others (\<^verbatim>\<open>src/src/request_api_handler.cc\<close>). The handlers
  of an API location share the files and the factory's \<^verbatim>\<open>path_counts\<close> without a lock. Here every
  access to either is one step: each call of the file system, the opening of an output file,
  which truncates it, and the write that follows, the copy of a list out of \<^verbatim>\<open>path_counts\<close> and
  the assignment that stores it back, the look-up of an entity, the search for an ID together
  with its removal. \<open>api_thread\<close> is the work on one request, constructor included; alone it does
  what the sequential definitions of \<open>Api_Handler\<close> do (\<open>api_thread_is_handler\<close>).

  What holds of requests one after the other is false of requests at once, and the properties
  here say how: both constructors write \<^verbatim>\<open>path_counts\<close> without synchronisation, a data race and
  so undefined behaviour, whatever the requests are; and even if every single access were
  indivisible, as it is in this model, two POSTs can get the same ID, a deleted ID can come
  back, and a GET can read the empty file that a PUT has just opened. Nothing is claimed to be
  safe under threads. The model has fewer interleavings than the program, never more, so each
  schedule shown is one of the program.
\<close>

section \<open>Accesses\<close>

definition ask :: "('w \<Rightarrow> 'a result) \<Rightarrow> ('w api_state, 'a) thread" where
  "ask q = reading (\<lambda>s. q (world s))"

text \<open>\<^verbatim>\<open>std::vector<int> ids = path_counts[entity]\<close>; the operator enters a missing entity.\<close>

definition copy_ids :: "string \<Rightarrow> ('w api_state, int list) thread" where
  "copy_ids entity = atomically (\<lambda>s.
     let ids = ids_of (path_counts s) entity
     in Inr (s\<lparr>path_counts := (path_counts s)(entity \<mapsto> ids)\<rparr>, ids))"

text \<open>\<^verbatim>\<open>path_counts[entity] = ids\<close>\<close>

definition store_ids :: "string \<Rightarrow> int list \<Rightarrow> ('w api_state, unit) thread" where
  "store_ids entity ids = atomically (\<lambda>s. Inr (s\<lparr>path_counts := (path_counts s)(entity \<mapsto> ids)\<rparr>, ()))"

text \<open>\<^verbatim>\<open>path_counts.find(entity) != path_counts.end()\<close>\<close>

definition entity_known :: "string \<Rightarrow> ('w api_state, bool) thread" where
  "entity_known entity = reading (\<lambda>s. Inr (path_counts s entity \<noteq> None))"

text \<open>\<^verbatim>\<open>find\<close> in the list of the entity and, if the ID is there, \<^verbatim>\<open>erase\<close>.\<close>

definition erase_id :: "string \<Rightarrow> int \<Rightarrow> ('w api_state, bool) thread" where
  "erase_id entity i = atomically (\<lambda>s.
     let ids = ids_of (path_counts s) entity
     in Inr (s\<lparr>path_counts := (path_counts s)(entity \<mapsto> if i \<in> set ids then release_id i ids else ids)\<rparr>,
         i \<in> set ids))"

text \<open>
  \<^verbatim>\<open>std::ofstream file(file_path)\<close> creates or truncates the file; \<^verbatim>\<open>file << body; file.close()\<close>
  writes to it when it could be opened.
\<close>

definition open_file :: "'w fs_ops \<Rightarrow> string \<Rightarrow> ('w api_state, bool) thread" where
  "open_file fs p = atomically (\<lambda>s. Inr (s\<lparr>world := fs_write fs (world s) p []\<rparr>, fs_can_write fs (world s) p))"

definition flush_file :: "'w fs_ops \<Rightarrow> string \<Rightarrow> string \<Rightarrow> ('w api_state, unit) thread" where
  "flush_file fs p c = atomically (\<lambda>s. Inr (s\<lparr>world := overwrite fs (world s) p c\<rparr>, ()))"

definition write_file :: "'w fs_ops \<Rightarrow> string \<Rightarrow> string \<Rightarrow> ('w api_state, unit) thread" where
  "write_file fs p c = tbind (open_file fs p) (\<lambda>opened. if opened then flush_file fs p c else Done ())"

definition make_directory :: "'w fs_ops \<Rightarrow> string \<Rightarrow> ('w api_state, bool) thread" where
  "make_directory fs p = atomically (\<lambda>s.
     let (w, ec) = fs_create_directory fs (world s) p in Inr (s\<lparr>world := w\<rparr>, ec))"

definition remove_file :: "'w fs_ops \<Rightarrow> string \<Rightarrow> ('w api_state, bool) thread" where
  "remove_file fs p = atomically (\<lambda>s.
     ebind (fs_remove fs (world s) p) (\<lambda>(w, removed). Inr (s\<lparr>world := w\<rparr>, removed)))"

lemmas accesses = ask_def copy_ids_def store_ids_def entity_known_def erase_id_def open_file_def
  flush_file_def make_directory_def remove_file_def

section \<open>The constructor\<close>

definition load_file_steps :: "'w fs_ops \<Rightarrow> string \<Rightarrow> ('w api_state, unit) thread" where
  "load_file_steps fs file =
     tbind (ask (\<lambda>w. fs_is_regular_file fs w file)) (\<lambda>regular.
       if \<not> regular then Done ()
       else
         let file_path_str = fs_absolute fs file in
         if file_path_str = [] then throw Undefined_behaviour
         else if is_digit (last file_path_str) then
           tbind (of_result (stoi (fs_stem fs file_path_str))) (\<lambda>i.
             let entity = after_slash (before_slash file_path_str) in
             tbind (copy_ids entity) (\<lambda>ids.
             tbind (of_result (insert_id ids i)) (store_ids entity)))
         else Done ())"

fun load_files_steps :: "'w fs_ops \<Rightarrow> string list \<Rightarrow> ('w api_state, unit) thread" where
  "load_files_steps fs [] = Done ()"
| "load_files_steps fs (f # files) = tbind (load_file_steps fs f) (\<lambda>_. load_files_steps fs files)"

definition api_load_steps :: "'w fs_ops \<Rightarrow> string \<Rightarrow> ('w api_state, unit) thread" where
  "api_load_steps fs root = tbind (ask (\<lambda>w. fs_walk fs w root)) (load_files_steps fs)"

section \<open>The operations\<close>

definition next_id_steps :: "string \<Rightarrow> ('w api_state, int) thread" where
  "next_id_steps directory =
     tbind (copy_ids directory) (\<lambda>id_list.
     tbind (of_result (next_id id_list)) (\<lambda>(i, id_list').
     tbind (store_ids directory id_list') (\<lambda>_. Done i)))"

type_synonym 'w api_program = "('w api_state, unit outcome) thread"

definition post_steps ::
  "'w fs_ops \<Rightarrow> api_handler \<Rightarrow> request \<Rightarrow> response \<Rightarrow> string \<Rightarrow> 'w api_program" where
  "post_steps fs h req res directory =
     (let path = api_root h @ ''/'' @ directory in
      tbind (ask (\<lambda>w. fs_exists fs w path)) (\<lambda>ex.
      tbind (if \<not> ex then make_directory fs path else Done False) (\<lambda>ec.
        if ec then Done (send_bad_request h () res)
        else
          tbind (next_id_steps directory) (\<lambda>i.
          tbind (write_file fs (path @ ''/'' @ to_string i) (req_body req)) (\<lambda>_.
            Done (outcome_of () (finish Status_created (created_body path i) ''text/html'' res)
              [api_log h ''200'']))))))"

definition delete_steps ::
  "'w fs_ops \<Rightarrow> api_handler \<Rightarrow> request \<Rightarrow> response \<Rightarrow> string \<Rightarrow> 'w api_program" where
  "delete_steps fs h req res directory =
     (let path = api_root h @ ''/'' @ directory;
          entity = before_slash directory;
          bad = Done (send_bad_request h () res)
      in tbind (ask (\<lambda>w. fs_exists fs w path)) (\<lambda>ex.
         if \<not> ex then bad
         else tbind (ask (\<lambda>w. fs_is_directory fs w path)) (\<lambda>dir.
         if dir then bad
         else case stoi (after_slash directory) of
           Inl _ \<Rightarrow> bad
         | Inr i \<Rightarrow>
             tbind (entity_known entity) (\<lambda>known.
             if \<not> known then bad
             else tbind (remove_file fs path) (\<lambda>removed.
             if \<not> removed then bad
             else tbind (erase_id entity i) (\<lambda>found.
             if \<not> found then bad
             else Done (send_ok h () deleted_body res)))))))"

definition get_steps ::
  "'w fs_ops \<Rightarrow> api_handler \<Rightarrow> request \<Rightarrow> response \<Rightarrow> string \<Rightarrow> 'w api_program" where
  "get_steps fs h req res directory =
     (let path = api_root h @ ''/'' @ directory;
          entity = before_slash directory;
          bad = Done (send_bad_request h () res)
      in tbind (ask (\<lambda>w. fs_exists fs w path)) (\<lambda>ex.
         if \<not> ex then bad
         else tbind (ask (\<lambda>w. fs_is_directory fs w path)) (\<lambda>dir.
         if dir then bad
         else case stoi (after_slash directory) of
           Inl _ \<Rightarrow> bad
         | Inr i \<Rightarrow>
             tbind (entity_known entity) (\<lambda>known.
             if \<not> known then bad
             else tbind (copy_ids entity) (\<lambda>ids.
             if i \<notin> set ids then bad
             else tbind (ask (\<lambda>w. Inr (fs_read fs w path))) (\<lambda>content.
               Done (send_ok h () (case content of None \<Rightarrow> [] | Some c \<Rightarrow> c) res)))))))"

definition list_steps ::
  "'w fs_ops \<Rightarrow> api_handler \<Rightarrow> request \<Rightarrow> response \<Rightarrow> string \<Rightarrow> 'w api_program" where
  "list_steps fs h req res directory =
     (let path = api_root h @ ''/'' @ directory;
          entity = before_slash directory;
          bad = Done (send_bad_request h () res)
      in tbind (ask (\<lambda>w. fs_is_directory fs w path)) (\<lambda>dir.
         if \<not> dir then bad
         else tbind (entity_known entity) (\<lambda>known.
         if \<not> known then bad
         else tbind (copy_ids entity) (\<lambda>ids. Done (send_ok h () (list_body ids) res)))))"

definition put_steps ::
  "'w fs_ops \<Rightarrow> api_handler \<Rightarrow> request \<Rightarrow> response \<Rightarrow> string \<Rightarrow> 'w api_program" where
  "put_steps fs h req res directory =
     (let path = api_root h @ ''/'' @ directory;
          bad = Done (send_bad_request h () res)
      in tbind (ask (\<lambda>w. fs_exists fs w path)) (\<lambda>ex.
         if \<not> ex then bad
         else tbind (ask (\<lambda>w. fs_is_directory fs w path)) (\<lambda>dir.
         if dir then bad
         else case stoi (after_slash directory) of
           Inl _ \<Rightarrow> bad
         | Inr _ \<Rightarrow>
             tbind (write_file fs path (req_body req)) (\<lambda>_. Done (send_ok h () (req_body req) res)))))"

definition request_steps :: "'w fs_ops \<Rightarrow> api_handler \<Rightarrow> request \<Rightarrow> response \<Rightarrow> 'w api_program" where
  "request_steps fs h req res =
     (let req_input = req_target req;
          logged_in = login_status (api_profile h);
          directory = drop 5 req_input;
          slash = (find_char CHR ''/'' directory \<noteq> None);
          bad = Done (send_bad_request h () res)
      in if take 5 req_input \<noteq> ''/api/'' \<or> req_input = ''/api/'' then bad
         else case req_method req of
           Verb_post \<Rightarrow>
             if slash then bad else if \<not> logged_in then bad
             else post_steps fs h req res directory
         | Verb_get \<Rightarrow>
             if slash then get_steps fs h req res directory
             else list_steps fs h req res directory
         | Verb_put \<Rightarrow>
             if \<not> slash then bad else if \<not> logged_in then bad
             else put_steps fs h req res directory
         | Verb_delete \<Rightarrow>
             if \<not> slash then bad else if \<not> logged_in then bad
             else delete_steps fs h req res directory
         | Verb_other _ \<Rightarrow> bad)"

text \<open>The constructor and the call, as \<^verbatim>\<open>session::handle_read\<close> makes them.\<close>

definition api_thread :: "'w fs_ops \<Rightarrow> api_handler \<Rightarrow> request \<Rightarrow> 'w api_program" where
  "api_thread fs h req = tbind (api_load_steps fs (api_root h)) (\<lambda>_. request_steps fs h req new_response)"

section \<open>A thread alone\<close>

text \<open>The answer of an outcome, without its state.\<close>

definition answer_of :: "'s outcome \<Rightarrow> unit outcome" where
  "answer_of out = \<lparr>out_state = (), out_status = out_status out, out_res = out_res out, out_log = out_log out\<rparr>"

definition split_outcome :: "'s outcome result \<Rightarrow> ('s \<times> unit outcome) result" where
  "split_outcome r = ebind r (\<lambda>out. Inr (out_state out, answer_of out))"

lemma answer_of_simps [simp]:
  "answer_of (outcome_of s res lg) = outcome_of () res lg"
  "answer_of (send_bad_request h s res) = send_bad_request h () res"
  "answer_of (send_ok h s b res) = send_ok h () b res"
  by (simp_all add: answer_of_def outcome_of_def send_bad_request_def send_ok_def)

lemma split_outcome_simps [simp]:
  "split_outcome (Inl e) = Inl e"
  "split_outcome (Inr out) = Inr (out_state out, answer_of out)"
  "split_outcome (ebind r k) = ebind r (\<lambda>x. split_outcome (k x))"
  by (cases r; simp add: split_outcome_def)+

declare ebind_assoc [simp]

lemma load_file_alone:
  "run_alone (load_file_steps fs f) s =
     ebind (load_file fs (world s) f (path_counts s)) (\<lambda>pc. Inr (s\<lparr>path_counts := pc\<rparr>, ()))"
  by (auto simp: load_file_steps_def load_file_def accesses Let_def ids_of_def intro!: ebind_cong)

lemma load_files_alone:
  "run_alone (load_files_steps fs files) s =
     ebind (load_files fs (world s) files (path_counts s)) (\<lambda>pc. Inr (s\<lparr>path_counts := pc\<rparr>, ()))"
  by (induction files arbitrary: s) (auto simp: load_file_alone intro!: ebind_cong)

lemma api_load_alone:
  "run_alone (api_load_steps fs root) s = ebind (api_load fs root s) (\<lambda>s'. Inr (s', ()))"
  by (simp add: api_load_steps_def api_load_def ask_def load_files_alone)

text \<open>Only requests that write need \<open>fs_rewrites\<close>.\<close>

lemma write_file_alone:
  "fs_rewrites fs \<Longrightarrow> run_alone (write_file fs p c) s = Inr (s\<lparr>world := fs_write fs (world s) p c\<rparr>, ())"
  using open_then_write [of fs "world s" p c] by (auto simp: write_file_def accesses split: if_splits)

lemma post_alone:
  "fs_rewrites fs \<Longrightarrow> run_alone (post_steps fs h req res d) s = split_outcome (handle_post fs h s req res d)"
  by (auto simp: write_file_alone post_steps_def handle_post_def ensure_directory_def get_next_id_def next_id_steps_def accesses
      Let_def ids_of_def split_beta intro!: ebind_cong)

lemma delete_alone: "run_alone (delete_steps fs h req res d) s = split_outcome (handle_delete fs h s req res d)"
  by (auto simp: delete_steps_def handle_delete_def accesses Let_def ids_of_def split_beta fun_upd_idem
      intro!: ebind_cong split: sum.split option.split)

lemma get_alone: "run_alone (get_steps fs h req res d) s = split_outcome (handle_get fs h s req res d)"
  by (auto simp: get_steps_def handle_get_def accesses Let_def ids_of_def fun_upd_idem
      intro!: ebind_cong split: sum.split option.split)

lemma list_alone: "run_alone (list_steps fs h req res d) s = split_outcome (handle_list fs h s req res d)"
  by (auto simp: list_steps_def handle_list_def accesses Let_def ids_of_def fun_upd_idem
      intro!: ebind_cong split: option.split)

lemma put_alone:
  "fs_rewrites fs \<Longrightarrow> run_alone (put_steps fs h req res d) s = split_outcome (handle_put fs h s req res d)"
  by (auto simp: write_file_alone put_steps_def handle_put_def accesses Let_def intro!: ebind_cong split: sum.split)

fun may_write :: "verb \<Rightarrow> bool" where
  "may_write Verb_post \<longleftrightarrow> True"
| "may_write Verb_put \<longleftrightarrow> True"
| "may_write _ \<longleftrightarrow> False"

lemma request_alone:
  "may_write (req_method req) \<longrightarrow> fs_rewrites fs \<Longrightarrow>
     run_alone (request_steps fs h req res) s = split_outcome (api_handle_request fs h s req res)"
  by (auto simp: request_steps_def api_handle_request_def Let_def post_alone delete_alone get_alone list_alone put_alone
      split: verb.split)

lemma api_thread_is_handler:
  "may_write (req_method req) \<longrightarrow> fs_rewrites fs \<Longrightarrow> run_alone (api_thread fs h req) s =
     split_outcome (ebind (api_load fs (api_root h) s) (\<lambda>s1. api_handle_request fs h s1 req new_response))"
  by (simp add: api_thread_def api_load_alone request_alone)

text \<open>The thread of a client's request and the client's view of its answer.\<close>

definition client_handler :: "string \<Rightarrow> string \<Rightarrow> client_op \<Rightarrow> api_handler" where
  "client_handler loc root = (\<lambda>(p, op).
     \<lparr>api_location = loc, api_root = root, api_url = req_target (op_request op), api_profile = p\<rparr>)"

definition api_client :: "'w fs_ops \<Rightarrow> string \<Rightarrow> string \<Rightarrow> client_op \<Rightarrow> ('w api_state, status \<times> string) thread" where
  "api_client fs loc root op =
     tbind (api_thread fs (client_handler loc root op) (op_request (snd op)))
       (\<lambda>out. Done (out_status out, res_body (out_res out)))"

text \<open>What is left of it once its handler is constructed.\<close>

definition client_call :: "'w fs_ops \<Rightarrow> string \<Rightarrow> string \<Rightarrow> client_op \<Rightarrow> ('w api_state, status \<times> string) thread" where
  "client_call fs loc root op =
     tbind (request_steps fs (client_handler loc root op) (op_request (snd op)) new_response)
       (\<lambda>out. Done (out_status out, res_body (out_res out)))"

lemma client_handler_simps [simp]:
  "api_root (client_handler loc root (p, op)) = root" "api_profile (client_handler loc root (p, op)) = p"
  by (simp_all add: client_handler_def)

lemma api_client_steps:
  "api_client fs loc root op = tbind (api_load_steps fs root) (\<lambda>_. client_call fs loc root op)"
  by (cases op) (simp add: api_client_def api_thread_def client_call_def tbind_assoc)

lemma delete_call_alone:
  "run_alone (api_client fs loc root (p, Delete e i)) s = api_exec fs loc root s (p, Delete e i)"
  by (simp add: api_client_def api_thread_is_handler api_exec_def split_outcome_def answer_of_def client_handler_def
      api_request_def)

lemma get_call_absent:
  assumes "fs_exists fs (world s) (item_at root e i) = Inr False"
  shows "run_alone (client_call fs loc root (p, Get e i)) s = Inr (s, Status_bad_request, bad_body)"
proof -
  have "api_handle_request fs (client_handler loc root (p, Get e i)) s (op_request (Get e i)) new_response =
      Inr (send_bad_request (client_handler loc root (p, Get e i)) s new_response)"
    using assms by (simp add: api_handle_request_item handle_get_def item_at_def Let_def)
  then show ?thesis by (simp add: client_call_def request_alone api_request_def)
qed

section \<open>Single steps\<close>

lemma step_ask:
  "q (world s) = Inr a \<Longrightarrow> thread_step\<^sup>*\<^sup>* (s, k a) c \<Longrightarrow> thread_step\<^sup>*\<^sup>* (s, tbind (ask q) k) c"
  by (rule steps_bind [where s' = s and a = a]) (simp add: ask_def)

lemma step_known:
  "path_counts s e = Some ids \<Longrightarrow> thread_step\<^sup>*\<^sup>* (s, k True) c \<Longrightarrow> thread_step\<^sup>*\<^sup>* (s, tbind (entity_known e) k) c"
  by (rule steps_bind [where s' = s and a = True]) (simp add: entity_known_def)

lemma step_copy:
  "path_counts s e = Some ids \<Longrightarrow> thread_step\<^sup>*\<^sup>* (s, k ids) c \<Longrightarrow> thread_step\<^sup>*\<^sup>* (s, tbind (copy_ids e) k) c"
  by (rule steps_bind [where s' = s and a = ids]) (simp add: copy_ids_def ids_of_def Let_def fun_upd_idem)

lemma step_store:
  "thread_step\<^sup>*\<^sup>* (s\<lparr>path_counts := (path_counts s)(e \<mapsto> ids)\<rparr>, k ()) c \<Longrightarrow> thread_step\<^sup>*\<^sup>* (s, tbind (store_ids e ids) k) c"
  by (rule steps_bind) (simp add: store_ids_def)

lemma step_open:
  "fs_can_write fs (world s) p \<Longrightarrow> thread_step\<^sup>*\<^sup>* (s\<lparr>world := fs_write fs (world s) p []\<rparr>, tbind (flush_file fs p b) k) c \<Longrightarrow>
     thread_step\<^sup>*\<^sup>* (s, tbind (write_file fs p b) k) c"
  unfolding write_file_def tbind_assoc
  by (rule steps_bind [where s' = "s\<lparr>world := fs_write fs (world s) p []\<rparr>" and a = True]) (simp_all add: open_file_def)

lemma step_flush:
  "thread_step\<^sup>*\<^sup>* (s\<lparr>world := overwrite fs (world s) p b\<rparr>, k ()) c \<Longrightarrow> thread_step\<^sup>*\<^sup>* (s, tbind (flush_file fs p b) k) c"
  by (rule steps_bind) (simp add: flush_file_def)

section \<open>The constructor of a handler\<close>

lemma load_files_steps_append:
  "load_files_steps fs (as @ bs) = tbind (load_files_steps fs as) (\<lambda>_. load_files_steps fs bs)"
  by (induction as) (simp_all add: tbind_assoc)

lemma known_files_alone:
  assumes "store_rep fs root E n s \<sigma>" and "more_ids (path_counts s) pc" and "\<forall>f \<in> set files. tree_path root E f"
  shows "run_alone (load_files_steps fs files) (s\<lparr>path_counts := pc\<rparr>) = Inr (s\<lparr>path_counts := pc\<rparr>, ())"
  using load_files_known [OF assms] by (simp add: load_files_alone)

lemma load_steps:
  assumes "store_rep fs root E n s \<sigma>" and "thread_step\<^sup>*\<^sup>* (s, k ()) c"
  shows "thread_step\<^sup>*\<^sup>* (s, tbind (api_load_steps fs root) k) c"
  by (rule steps_bind [where s' = s and a = "()"]) (simp_all add: api_load_alone api_load_known [OF assms(1)] assms(2))

text \<open>The files of the walk around an item; the item's name and its list.\<close>

lemma walk_around:
  assumes "store_rep fs root E n s \<sigma>" and "fs_walk fs (world s) root = Inr files" and "f \<in> set files"
  obtains pre post where "files = pre @ f # post" and "\<forall>f \<in> set pre. tree_path root E f" and "\<forall>f \<in> set post. tree_path root E f"
proof -
  from assms(3) obtain pre post where f: "files = pre @ f # post" by (auto simp: in_set_conv_decomp)
  moreover from assms(1) obtain files' where "fs_walk fs (world s) root = Inr files'" "\<forall>f \<in> set files'. tree_path root E f"
    by (rule rep_walk)
  ultimately show thesis using assms(2) that by auto
qed

lemma item_file_name:
  assumes "storage_ok fs root E" and "e \<in> E" and "in_int i"
  shows "fs_absolute fs (item_at root e i) \<noteq> []" and "is_digit (last (fs_absolute fs (item_at root e i)))"
    and "stoi (fs_stem fs (fs_absolute fs (item_at root e i))) = Inr i"
    and "after_slash (before_slash (fs_absolute fs (item_at root e i))) = e"
proof -
  from storage_numbering [OF assms] obtain a where a: "fs_absolute fs (item_at root e i) = item_at a e i"
    "fs_stem fs (item_at a e i) = to_string i" by blast
  have x: "item_at a e i = (a @ ''/'' @ e) @ CHR ''/'' # to_string i" by (simp add: item_at_def)
  have "before_slash (item_at a e i) = a @ CHR ''/'' # e"
    unfolding x by (subst before_slash_simp) (simp_all add: to_string_no_bar)
  with storage_names(2) [OF assms(1,2)] show "after_slash (before_slash (fs_absolute fs (item_at root e i))) = e" by (simp add: a)
  show "fs_absolute fs (item_at root e i) \<noteq> []" "is_digit (last (fs_absolute fs (item_at root e i)))"
    unfolding a(1) using last_to_string [of i] by (simp_all add: item_at_def)
  show "stoi (fs_stem fs (fs_absolute fs (item_at root e i))) = Inr i" using assms(3) by (simp add: a)
qed

text \<open>A constructor that has copied the list of an item's entity and is about to store it back.\<close>

lemma loader_reaches_store:
  assumes rep: "store_rep fs root E n s \<sigma>" and e: "e \<in> E" and i: "items \<sigma> e i = Some c"
    and walk: "fs_walk fs (world s) root = Inr (pre @ item_at root e i # post)"
    and pre: "\<forall>f \<in> set pre. tree_path root E f" and ids: "path_counts s e = Some ids"
  shows "thread_step\<^sup>*\<^sup>* (s, tbind (api_load_steps fs root) k)
    (s, tbind (store_ids e ids) (\<lambda>_. tbind (load_files_steps fs post) k))"
proof -
  note ii = rep_item_int [OF rep e i] and name = item_file_name [OF rep_storage [OF rep] e rep_item_int [OF rep e i]]
  have reg: "fs_is_regular_file fs (world s) (item_at root e i) = Inr True"
    using rep_item [OF rep e ii] i by (simp add: item_node_def)
  have "i \<in> set ids" using rep_ids(2) [OF rep e] i ids by (auto simp: ids_of_def)
  then have ins: "insert_id ids i = Inr ids" by (simp add: insert_id_def)
  have "run_alone (load_files_steps fs pre) s = Inr (s, ())"
    using known_files_alone [OF rep more_ids_refl pre] by simp
  moreover have "thread_step\<^sup>*\<^sup>* (s, tbind (load_file_steps fs (item_at root e i)) k') (s, tbind (store_ids e ids) k')" for k'
    unfolding load_file_steps_def tbind_assoc
    by (rule step_ask [where q = "\<lambda>w. fs_is_regular_file fs w (item_at root e i)", OF reg])
      (simp add: name of_result_def tbind_assoc Let_def, rule step_copy [OF ids], simp add: ins)
  ultimately have "thread_step\<^sup>*\<^sup>* (s, tbind (load_files_steps fs (pre @ item_at root e i # post)) k)
      (s, tbind (store_ids e ids) (\<lambda>_. tbind (load_files_steps fs post) k))"
    by (auto simp: load_files_steps_append tbind_assoc intro: steps_bind)
  then show ?thesis
    unfolding api_load_steps_def tbind_assoc by (rule step_ask [where q = "\<lambda>w. fs_walk fs w root", OF walk])
qed

section \<open>Requests up to the access that matters\<close>

lemma item_steps:
  assumes "in_int i"
  shows "stoi (after_slash (e @ ''/'' @ to_string i)) = Inr i" and "before_slash (e @ ''/'' @ to_string i) = e"
    and "root @ ''/'' @ e @ ''/'' @ to_string i = item_at root e i"
  using assms by (simp_all add: item_at_def to_string_no_bar)

lemma request_steps_cases:
  assumes "d \<noteq> []"
  shows "CHR ''/'' \<notin> set d \<Longrightarrow> login_status (api_profile h) \<Longrightarrow>
      request_steps fs h (api_request Verb_post d b) res = post_steps fs h (api_request Verb_post d b) res d"
    and "CHR ''/'' \<in> set d \<Longrightarrow>
      request_steps fs h (api_request Verb_get d b) res = get_steps fs h (api_request Verb_get d b) res d"
    and "CHR ''/'' \<in> set d \<Longrightarrow> login_status (api_profile h) \<Longrightarrow>
      request_steps fs h (api_request Verb_put d b) res = put_steps fs h (api_request Verb_put d b) res d"
  using assms by (simp_all add: request_steps_def api_request_def Let_def find_char_None_iff)

text \<open>A POST that has taken an ID from its copy of the list and not stored the list yet.\<close>

definition posting :: "'w fs_ops \<Rightarrow> string \<Rightarrow> string \<Rightarrow> int \<Rightarrow> int list \<Rightarrow> string \<Rightarrow> ('w api_state, status \<times> string) thread" where
  "posting fs root e i ids b =
     tbind (store_ids e ids) (\<lambda>_. tbind (write_file fs (item_at root e i) b) (\<lambda>_.
       Done (Status_created, created_body (root @ ''/'' @ e) i)))"

lemma post_reaches_posting:
  assumes rep: "store_rep fs root E n s \<sigma>" and e: "e \<in> E" and p: "login_status p"
    and ids: "path_counts s e = Some ids" "next_id ids = Inr (i, ids')"
  shows "thread_step\<^sup>*\<^sup>* (s, api_client fs loc root (p, Post e b)) (s, posting fs root e i ids' b)"
proof -
  note names = storage_names [OF rep_storage [OF rep] e]
  have "fs_is_directory fs (world s) (entity_at root e) = Inr True" using rep e by (cases rule: rep_cases) (use ids in auto)
  then have ex: "fs_exists fs (world s) (root @ ''/'' @ e) = Inr True"
    using fs_directory_exists [OF storage_lawful [OF rep_storage [OF rep]]] by (simp add: entity_at_def)
  show ?thesis
    unfolding api_client_steps
  proof (rule load_steps [OF rep])
    show "thread_step\<^sup>*\<^sup>* (s, client_call fs loc root (p, Post e b)) (s, posting fs root e i ids' b)"
      unfolding client_call_def snd_conv op_request.simps request_steps_cases(1) [OF names, of "client_handler loc root (p, Post e b)",
          unfolded client_handler_simps, OF p] post_steps_def Let_def tbind_assoc client_handler_simps
      by (rule step_ask [where q = "\<lambda>w. fs_exists fs w (root @ ''/'' @ e)", OF ex])
        (simp add: next_id_steps_def tbind_assoc, rule step_copy [OF ids(1)],
          simp add: ids(2) of_result_def posting_def tbind_assoc item_at_def)
  qed
qed

lemma posting_runs:
  assumes "fs_lawful fs" and "fs_can_write fs (world s) (item_at root e i)"
  shows "thread_step\<^sup>*\<^sup>* (s, posting fs root e i ids b)
    (s\<lparr>world := fs_write fs (fs_write fs (world s) (item_at root e i) []) (item_at root e i) b,
       path_counts := (path_counts s)(e \<mapsto> ids)\<rparr>, Done (Status_created, created_body (root @ ''/'' @ e) i))"
proof -
  obtain w pc where s: "s = \<lparr>world = w, path_counts = pc\<rparr>" by (cases s)
  show ?thesis
    unfolding posting_def
    by (rule step_store, rule step_open, use assms in \<open>simp add: s\<close>, rule step_flush)
      (use assms in \<open>simp add: s overwrite_opened\<close>)
qed

text \<open>A GET that has found the item in the list and not read the file yet.\<close>

lemma get_reaches_read:
  assumes rep: "store_rep fs root E n s \<sigma>" and e: "e \<in> E" and i: "items \<sigma> e i = Some c"
  shows "thread_step\<^sup>*\<^sup>* (s, api_client fs loc root (q, Get e i))
    (s, tbind (ask (\<lambda>w. Inr (fs_read fs w (item_at root e i))))
       (\<lambda>content. Done (Status_ok, case content of None \<Rightarrow> [] | Some c \<Rightarrow> c)))"
  unfolding api_client_steps
proof (rule load_steps [OF rep])
  let ?h = "client_handler loc root (q, Get e i)"
  from item_queries(2) [OF rep e i] obtain ids where q: "path_counts s e = Some ids" "i \<in> set ids"
    and x: "fs_exists fs (world s) (item_at root e i) = Inr True" "fs_is_directory fs (world s) (item_at root e i) = Inr False"
    by blast
  have "request_steps fs ?h (op_request (Get e i)) new_response =
      get_steps fs ?h (op_request (Get e i)) new_response (e @ ''/'' @ to_string i)"
    unfolding op_request.simps by (rule request_steps_cases(2)) simp_all
  then show "thread_step\<^sup>*\<^sup>* (s, client_call fs loc root (q, Get e i)) (s, tbind (ask (\<lambda>w. Inr (fs_read fs w (item_at root e i))))
       (\<lambda>content. Done (Status_ok, case content of None \<Rightarrow> [] | Some c \<Rightarrow> c)))"
    unfolding client_call_def snd_conv get_steps_def Let_def client_handler_simps item_steps [OF rep_item_int [OF rep e i]] sum.case
    using q by (simp only: tbind_assoc)
      (rule step_ask [where q = "\<lambda>w. fs_exists fs w (item_at root e i)", OF x(1)], simp add: tbind_assoc,
        rule step_ask [where q = "\<lambda>w. fs_is_directory fs w (item_at root e i)", OF x(2)], simp add: tbind_assoc,
        rule step_known [OF q(1)], simp add: tbind_assoc, rule step_copy [OF q(1)], simp add: tbind_assoc)
qed

text \<open>A PUT that is about to open the file.\<close>

lemma put_reaches_open:
  assumes rep: "store_rep fs root E n s \<sigma>" and e: "e \<in> E" and i: "items \<sigma> e i = Some c" and p: "login_status p"
  shows "thread_step\<^sup>*\<^sup>* (s, api_client fs loc root (p, Put e i b))
    (s, tbind (write_file fs (item_at root e i) b) (\<lambda>_. Done (Status_ok, b)))"
  unfolding api_client_steps
proof (rule load_steps [OF rep])
  let ?h = "client_handler loc root (p, Put e i b)"
  from item_queries(2) [OF rep e i]
  have x: "fs_exists fs (world s) (item_at root e i) = Inr True" "fs_is_directory fs (world s) (item_at root e i) = Inr False"
    by blast+
  have "request_steps fs ?h (op_request (Put e i b)) new_response =
      put_steps fs ?h (op_request (Put e i b)) new_response (e @ ''/'' @ to_string i)"
    unfolding op_request.simps by (rule request_steps_cases(3)) (simp_all add: p)
  then show "thread_step\<^sup>*\<^sup>* (s, client_call fs loc root (p, Put e i b))
      (s, tbind (write_file fs (item_at root e i) b) (\<lambda>_. Done (Status_ok, b)))"
    unfolding client_call_def snd_conv put_steps_def Let_def client_handler_simps item_steps [OF rep_item_int [OF rep e i]] sum.case
    by (simp only: tbind_assoc)
      (rule step_ask [where q = "\<lambda>w. fs_exists fs w (item_at root e i)", OF x(1)], simp add: tbind_assoc,
        rule step_ask [where q = "\<lambda>w. fs_is_directory fs w (item_at root e i)", OF x(2)], simp add: tbind_assoc)
qed

lemma item_writable:
  assumes rep: "store_rep fs root E n s \<sigma>" and e: "e \<in> E" "\<sigma> e = Some m" and i: "in_int i"
  shows "fs_can_write fs (world s) (item_at root e i)"
proof -
  note st = rep_storage [OF rep]
  have "fs_is_directory fs (world s) (item_at root e i) = Inr False"
    using rep_item [OF rep e(1) i] exists_false(1) [OF st tree_pathI(3) [OF e(1) i]]
      fs_regular_not_directory [OF storage_lawful [OF st]] by (auto simp: item_node_def split: option.splits)
  moreover have "fs_is_directory fs (world s) (entity_at root e) = Inr True"
    using rep_entity [OF rep e(1)] e(2) by (simp add: entity_rep_def)
  ultimately show ?thesis using storage_write [OF st e(1) i] by blast
qed

section \<open>A list with an ID too many\<close>

lemma stale_list:
  assumes rep: "store_rep fs root E n s \<sigma>" and e: "e \<in> E" "\<sigma> e = Some m" and i: "in_int i" "m i = None"
    and ids: "dom m \<subseteq> set ids" "i \<in> set ids" and s': "s' = s\<lparr>path_counts := (path_counts s)(e \<mapsto> ids)\<rparr>"
  shows "more_ids (path_counts s) (path_counts s')" and "fs_exists fs (world s') (item_at root e i) = Inr False"
    and "api_exec fs loc root s' (r, List e) = Inr (s', Status_ok, list_body ids)"
    and "api_exec fs loc root s' (r, Get e i) = Inr (s', Status_bad_request, bad_body)"
    and "\<not> (\<exists>E n \<sigma>. e \<in> E \<and> store_rep fs root E n s' \<sigma>)"
proof -
  note names = storage_names [OF rep_storage [OF rep] e(1)]
  have "set (ids_of (path_counts s) e) \<subseteq> set ids" using rep_ids(2) [OF rep e(1)] e(2) ids(1) by (simp add: items_def)
  then show more: "more_ids (path_counts s) (path_counts s')" by (auto simp: more_ids_def s' ids_of_def)
  show gone: "fs_exists fs (world s') (item_at root e i) = Inr False"
    using item_queries(1) [OF rep e(1), of i] e(2) i by (simp add: items_def s')
  have load: "api_load fs root s' = Inr s'" using api_load_more [OF rep, of "path_counts s'"] more by (simp add: s')
  have "fs_is_directory fs (world s') (entity_at root e) = Inr True"
    using rep_entity [OF rep e(1)] e(2) by (simp add: entity_rep_def s')
  moreover have "path_counts s' e = Some ids" by (simp add: s')
  ultimately show "api_exec fs loc root s' (r, List e) = Inr (s', Status_ok, list_body ids)"
    using names by (simp add: api_exec_def load api_handle_request_entity handle_list_def entity_at_def Let_def)
  show "api_exec fs loc root s' (r, Get e i) = Inr (s', Status_bad_request, bad_body)"
    using gone by (simp add: api_exec_def load api_handle_request_item handle_get_def item_at_def Let_def)
  have "False" if "e \<in> E'" "store_rep fs root E' n' s' \<sigma>'" for E' n' \<sigma>'
  proof -
    have "items \<sigma>' e i \<noteq> None" using rep_ids(2) [OF that(2,1)] ids(2) by (auto simp: s' ids_of_def)
    then show False using item_queries(2) [OF that(2,1), of i] gone by auto
  qed
  then show "\<not> (\<exists>E n \<sigma>. e \<in> E \<and> store_rep fs root E n s' \<sigma>)" by blast
qed

section \<open>Properties\<close>

lemma posts_differ:
  assumes "store_run root \<sigma> [(p, Post e b), (q, Post e c)]
    [(Status_created, created_body d i), (Status_created, created_body d i)] \<sigma>'"
  shows False
proof -
  from assms obtain \<sigma>1 where "store_step root \<sigma> (p, Post e b) \<sigma>1 Status_created (created_body d i)"
    and 2: "store_step root \<sigma>1 (q, Post e c) \<sigma>' Status_created (created_body d i)"
    by (auto elim!: store_run.cases)
  then obtain j where "\<sigma>1 = \<sigma>(e \<mapsto> (items \<sigma> e)(j \<mapsto> b))" "created_body d i = created_body (root @ ''/'' @ e) j"
    by (auto elim!: store_stepE)
  moreover from 2 obtain k where "items \<sigma>1 e k = None" "created_body d i = created_body (root @ ''/'' @ e) k"
    by (auto elim!: store_stepE)
  ultimately show False by (auto simp: created_body_def dest: to_string_inj)
qed

text \<open>
  C18. Two POSTs at once can get the same ID: whatever the store, two logged-in clients who post
  to an existing entity can both be told 201 with the same new ID. The content of the first is
  lost, and no order of the two requests gives these answers.
\<close>

theorem concurrent_posts_collide:
  assumes rep: "store_rep fs root E n s \<sigma>" and e: "e \<in> E" "\<sigma> e = Some m" and n: "n < id_cap"
    and pq: "login_status p" "login_status q"
  shows "\<exists>i s' a. a = (Status_created, created_body (root @ ''/'' @ e) i) \<and> m i = None \<and>
    par_step\<^sup>*\<^sup>* (s, map (api_client fs loc root) [(p, Post e b), (q, Post e c)]) (s', [Done a, Done a]) \<and>
    fs_read fs (world s') (item_at root e i) = Some c \<and>
    \<not> (\<exists>\<sigma>0 \<sigma>1. store_run root \<sigma>0 [(p, Post e b), (q, Post e c)] [a, a] \<sigma>1 \<or>
        store_run root \<sigma>0 [(q, Post e c), (p, Post e b)] [a, a] \<sigma>1)"
proof -
  from rep e(1) obtain ids where ids: "path_counts s e = Some ids" "ids_ok n ids" "set ids = dom m"
    by (cases rule: rep_cases) (use e(2) in auto)
  from api_ids.nxt_law [OF ids(2) n] obtain i ids' where i: "next_id ids = Inr (i, ids')" "i \<notin> set ids"
    and ok: "ids_ok (Suc n) ids'" "i \<in> set ids'" by blast
  have "in_int i" by (rule ids_ok_in_int [OF ok(1) _ ok(2)]) (use n in simp)
  note fs = storage_lawful [OF rep_storage [OF rep]] and cw = item_writable [OF rep e this]
  let ?p = "item_at root e i" and ?c = "api_client fs loc root" and ?g = "posting fs root e i ids'"
  define w1 where "w1 = fs_write fs (fs_write fs (world s) ?p []) ?p b"
  define s1 where "s1 = s\<lparr>world := w1, path_counts := (path_counts s)(e \<mapsto> ids')\<rparr>"
  define s2 where "s2 = s1\<lparr>world := fs_write fs (fs_write fs w1 ?p []) ?p c, path_counts := (path_counts s1)(e \<mapsto> ids')\<rparr>"
  have cw1: "fs_can_write fs w1 ?p" unfolding w1_def by (intro fs_writable_write [OF fs] cw)
  have s1: "world s1 = w1" by (simp add: s1_def)
  let ?a = "Done (Status_created, created_body (root @ ''/'' @ e) i)"
  note post = post_reaches_posting [OF rep e(1) _ ids(1) i(1)]
  have 1: "par_step\<^sup>*\<^sup>* (s, [?c (p, Post e b), ?c (q, Post e c)]) (s, [?g b, ?c (q, Post e c)])"
    using steps_par [of s "[?c (p, Post e b), ?c (q, Post e c)]" 0] post [OF pq(1)] by simp
  have 2: "par_step\<^sup>*\<^sup>* (s, [?g b, ?c (q, Post e c)]) (s, [?g b, ?g c])"
    using steps_par [of s "[?g b, ?c (q, Post e c)]" 1] post [OF pq(2)] by simp
  have 3: "par_step\<^sup>*\<^sup>* (s, [?g b, ?g c]) (s1, [?a, ?g c])"
    using steps_par [of s "[?g b, ?g c]" 0] posting_runs [OF fs cw] by (simp add: s1_def w1_def)
  have 4: "par_step\<^sup>*\<^sup>* (s1, [?a, ?g c]) (s2, [?a, ?a])"
    using steps_par [of s1 "[?a, ?g c]" 1] posting_runs [OF fs cw1 [folded s1]] by (simp add: s1 s2_def)
  have run: "par_step\<^sup>*\<^sup>* (s, map ?c [(p, Post e b), (q, Post e c)]) (s2, [?a, ?a])"
    using rtranclp_trans [OF rtranclp_trans [OF 1 2] rtranclp_trans [OF 3 4]] by simp
  have "fs_read fs (world s2) ?p = Some c"
    using fs_read_write [OF fs fs_writable_write [OF fs cw1]] by (simp add: s2_def)
  moreover have "m i = None" using i(2) ids(3) by auto
  ultimately show ?thesis
    by (intro exI [of _ i] exI conjI) (rule refl, assumption, rule run, assumption, use posts_differ in blast)
qed

text \<open>
  C19. A request can bring a deleted ID back, whatever the store and whoever reads: while one
  thread constructs its handler for a GET of an item and has copied the list of its entity,
  another deletes the item; the first then stores its older copy. The GET is answered 400 and
  the DELETE 200, the file is gone and its ID is registered again: every LIST shows it from
  then on, every GET of it is refused, and the state represents no store any more. The walk of
  the constructor is taken to visit the item's file.
\<close>

theorem deleted_id_returns:
  assumes rep: "store_rep fs root E n s \<sigma>" and e: "e \<in> E" and i: "items \<sigma> e i = Some c" and p: "login_status p"
    and walk: "fs_walk fs (world s) root = Inr files" "item_at root e i \<in> set files"
  shows "\<exists>s' ids. par_step\<^sup>*\<^sup>* (s, map (api_client fs loc root) [(q, Get e i), (p, Delete e i)])
      (s', [Done (Status_bad_request, bad_body), Done (Status_ok, deleted_body)]) \<and>
    i \<in> set ids \<and> api_exec fs loc root s' (r, List e) = Inr (s', Status_ok, list_body ids) \<and>
    api_exec fs loc root s' (r, Get e i) = Inr (s', Status_bad_request, bad_body) \<and>
    fs_exists fs (world s') (item_at root e i) = Inr False \<and>
    \<not> (\<exists>E n \<sigma>. e \<in> E \<and> store_rep fs root E n s' \<sigma>)"
proof -
  let ?c = "api_client fs loc root"
  from rep walk obtain pre post where w: "files = pre @ item_at root e i # post"
    and pre: "\<forall>f \<in> set pre. tree_path root E f" and post: "\<forall>f \<in> set post. tree_path root E f" by (rule walk_around)
  note ii = rep_item_int [OF rep e i]
  from item_queries(2) [OF rep e i] obtain m ids where m: "\<sigma> e = Some m" and ids: "path_counts s e = Some ids"
    "i \<in> set ids" "set ids = dom m" by blast
  from exec_delete [OF rep e i ii p, of loc] m obtain s1 where del: "api_exec fs loc root s (p, Delete e i) = Inr (s1, Status_ok, deleted_body)"
    and rep1: "store_rep fs root E n s1 (\<sigma>(e \<mapsto> m(i := None)))" by (auto simp: items_def)
  define s2 where "s2 = s1\<lparr>path_counts := (path_counts s1)(e \<mapsto> ids)\<rparr>"
  have stale: "(\<sigma>(e \<mapsto> m(i := None))) e = Some (m(i := None))" "(m(i := None)) i = None" "dom (m(i := None)) \<subseteq> set ids"
    using ids(3) by auto
  note bad = stale_list [OF rep1 e stale(1) ii stale(2,3) ids(2) s2_def]
  define reader where "reader = tbind (store_ids e ids) (\<lambda>_. tbind (load_files_steps fs post) (\<lambda>_. client_call fs loc root (q, Get e i)))"
  have copy: "thread_step\<^sup>*\<^sup>* (s, ?c (q, Get e i)) (s, reader)"
    unfolding reader_def api_client_steps by (rule loader_reaches_store [OF rep e i walk(1) [unfolded w] pre ids(1)])
  have "run_alone (load_files_steps fs post) s2 = Inr (s2, ())"
    using known_files_alone [OF rep1 bad(1) post] by (simp add: s2_def)
  then have fin: "thread_step\<^sup>*\<^sup>* (s1, reader) (s2, Done (Status_bad_request, bad_body))"
    unfolding reader_def by (intro step_store, fold s2_def) (rule steps_bind, assumption, rule steps_done [OF get_call_absent [OF bad(2)]])
  have "par_step\<^sup>*\<^sup>* (s, [?c (q, Get e i), ?c (p, Delete e i)]) (s, [reader, ?c (p, Delete e i)])"
    using steps_par [of s "[?c (q, Get e i), ?c (p, Delete e i)]" 0] copy by simp
  also have "par_step\<^sup>*\<^sup>* (s, [reader, ?c (p, Delete e i)]) (s1, [reader, Done (Status_ok, deleted_body)])"
    using steps_par [of s "[reader, ?c (p, Delete e i)]" 1] steps_done [OF delete_call_alone [THEN trans, OF del]] by simp
  also have "par_step\<^sup>*\<^sup>* (s1, [reader, Done (Status_ok, deleted_body)])
      (s2, [Done (Status_bad_request, bad_body), Done (Status_ok, deleted_body)])"
    using steps_par [of s1 "[reader, Done (Status_ok, deleted_body)]" 0] fin by simp
  finally show ?thesis using bad ids(2) by (intro exI [of _ s2] exI [of _ ids]) simp
qed

text \<open>
  C20. A GET can read the file a PUT has just opened: whatever the store, when a logged-in client
  puts new content to an item while anybody reads it, both can be answered 200, the GET
  with no content at all. The file ends with the new content, and no order of the two requests
  gives these answers when neither the old nor the new content is empty.
\<close>

theorem get_reads_opened_file:
  assumes rep: "store_rep fs root E n s \<sigma>" and e: "e \<in> E" and i: "items \<sigma> e i = Some c" and p: "login_status p"
    and ne: "c \<noteq> []" "b \<noteq> []"
  shows "\<exists>s'. par_step\<^sup>*\<^sup>* (s, map (api_client fs loc root) [(q, Get e i), (p, Put e i b)])
      (s', [Done (Status_ok, []), Done (Status_ok, b)]) \<and>
    fs_read fs (world s') (item_at root e i) = Some b \<and>
    \<not> (\<exists>\<sigma>'. store_run root \<sigma> [(q, Get e i), (p, Put e i b)] [(Status_ok, []), (Status_ok, b)] \<sigma>' \<or>
        store_run root \<sigma> [(p, Put e i b), (q, Get e i)] [(Status_ok, b), (Status_ok, [])] \<sigma>')"
proof -
  let ?p = "item_at root e i" and ?c = "api_client fs loc root"
  from item_queries(2) [OF rep e i] obtain m where m: "\<sigma> e = Some m" by blast
  note fs = storage_lawful [OF rep_storage [OF rep]] and cw = item_writable [OF rep e m rep_item_int [OF rep e i]]
  define rd where "rd = tbind (ask (\<lambda>w. Inr (fs_read fs w ?p)))
    (\<lambda>content. Done (Status_ok, case content of None \<Rightarrow> [] | Some c \<Rightarrow> c))"
  define fl where "fl = tbind (flush_file fs ?p b) (\<lambda>_. Done (Status_ok, b))"
  define s1 where "s1 = s\<lparr>world := fs_write fs (world s) ?p []\<rparr>"
  define s2 where "s2 = s1\<lparr>world := overwrite fs (world s1) ?p b\<rparr>"
  have r1: "fs_read fs (world s1) ?p = Some []" using fs_read_write [OF fs cw] by (simp add: s1_def)
  have opened: "thread_step\<^sup>*\<^sup>* (s, ?c (p, Put e i b)) (s1, fl)"
    using put_reaches_open [OF rep e i p] by (rule rtranclp_trans) (rule step_open [OF cw], simp add: fl_def s1_def)
  have read: "thread_step\<^sup>*\<^sup>* (s1, rd) (s1, Done (Status_ok, []))"
    unfolding rd_def by (rule step_ask [where a = "Some []"]) (simp_all add: r1)
  have flushed: "thread_step\<^sup>*\<^sup>* (s1, fl) (s2, Done (Status_ok, b))"
    unfolding fl_def s2_def by (rule step_flush) simp
  have "par_step\<^sup>*\<^sup>* (s, [?c (q, Get e i), ?c (p, Put e i b)]) (s, [rd, ?c (p, Put e i b)])"
    using steps_par [of s "[?c (q, Get e i), ?c (p, Put e i b)]" 0] get_reaches_read [OF rep e i] by (simp add: rd_def)
  also have "par_step\<^sup>*\<^sup>* (s, [rd, ?c (p, Put e i b)]) (s1, [rd, fl])"
    using steps_par [of s "[rd, ?c (p, Put e i b)]" 1] opened by simp
  also have "par_step\<^sup>*\<^sup>* (s1, [rd, fl]) (s1, [Done (Status_ok, []), fl])"
    using steps_par [of s1 "[rd, fl]" 0] read by simp
  also have "par_step\<^sup>*\<^sup>* (s1, [Done (Status_ok, []), fl]) (s2, [Done (Status_ok, []), Done (Status_ok, b)])"
    using steps_par [of s1 "[Done (Status_ok, []), fl]" 1] flushed by simp
  finally have run: "par_step\<^sup>*\<^sup>* (s, map ?c [(q, Get e i), (p, Put e i b)]) (s2, [Done (Status_ok, []), Done (Status_ok, b)])"
    by simp
  have "fs_read fs (world s2) ?p = Some b"
    using read_overwrite [OF fs _ r1] fs_writable_write [OF fs cw] by (simp add: s1_def s2_def)
  moreover have "\<not> store_run root \<sigma> [(q, Get e i), (p, Put e i b)] [(Status_ok, []), (Status_ok, b)] \<sigma>'" for \<sigma>'
    using i ne(1) by (auto elim!: store_run.cases store_step_getE)
  moreover have "\<not> store_run root \<sigma> [(p, Put e i b), (q, Get e i)] [(Status_ok, b), (Status_ok, [])] \<sigma>'" for \<sigma>'
    using i ne(2) by (auto elim!: store_run.cases store_stepE)
  ultimately show ?thesis using run by blast
qed

text \<open>
  C21. Requests to the API race from the start: the two threads of any two requests to the same
  location, valid or not, logged in or not, can both stand right before the assignment
  \<^verbatim>\<open>path_counts[entity] = ids\<close> of their constructors, for the same entity, as soon as one item
  is stored. Nothing orders the two writes: a data race, undefined behaviour in C++. The walk of
  the constructor is taken to visit the item's file.
\<close>

theorem constructors_race:
  assumes rep: "store_rep fs root E n s \<sigma>" and e: "e \<in> E" and i: "items \<sigma> e i = Some c"
    and walk: "fs_walk fs (world s) root = Inr files" "item_at root e i \<in> set files"
    and h: "api_root h1 = root" "api_root h2 = root"
  shows "\<exists>ids k1 k2. par_step\<^sup>*\<^sup>* (s, [api_thread fs h1 req1, api_thread fs h2 req2])
    (s, [tbind (store_ids e ids) k1, tbind (store_ids e ids) k2])"
proof -
  from rep walk obtain pre post where w: "files = pre @ item_at root e i # post"
    and pre: "\<forall>f \<in> set pre. tree_path root E f" by (rule walk_around)
  from item_queries(2) [OF rep e i] obtain ids where ids: "path_counts s e = Some ids" by blast
  define st where "st = (\<lambda>h req. tbind (store_ids e ids) (\<lambda>_. tbind (load_files_steps fs post) (\<lambda>_. request_steps fs h req new_response)))"
  have reach: "thread_step\<^sup>*\<^sup>* (s, api_thread fs h req) (s, st h req)" if "api_root h = root" for h req
    unfolding api_thread_def that st_def by (rule loader_reaches_store [OF rep e i walk(1) [unfolded w] pre ids])
  let ?t1 = "api_thread fs h1 req1" and ?t2 = "api_thread fs h2 req2"
  have "par_step\<^sup>*\<^sup>* (s, [?t1, ?t2]) (s, [st h1 req1, ?t2])"
    using steps_par [of s "[?t1, ?t2]" 0] reach [OF h(1)] by simp
  also have "par_step\<^sup>*\<^sup>* (s, [st h1 req1, ?t2]) (s, [st h1 req1, st h2 req2])"
    using steps_par [of s "[st h1 req1, ?t2]" 1] reach [OF h(2)] by simp
  finally show ?thesis unfolding st_def by blast
qed

section \<open>Instances\<close>

text \<open>A store with one entity without items.\<close>

definition demo_entity :: "mem_world api_state" where
  "demo_entity = \<lparr>world = [(''r/S'', Dir), (''r'', Dir)], path_counts = [''S'' \<mapsto> []]\<rparr>"

lemma demo_entity_rep: "store_rep mem_fs ''r'' {''S''} 0 demo_entity [''S'' \<mapsto> Map.empty]"
proof -
  have "map_of (world demo_entity) (item_at ''r'' ''S'' i) = None" for i
    by (simp add: demo_entity_def item_at_def)
  then have "item_node mem_fs (world demo_entity) (item_at ''r'' ''S'' i) None" for i
    by (simp add: item_node_def mem_fs_def)
  moreover have "tree_rep mem_fs ''r'' {''S''} (world demo_entity)"
    by (simp add: tree_rep_def demo_entity_def mem_fs_def tree_path_def entity_at_def)
  ultimately show ?thesis
    using demo_storage api_ids.ok_empty
    by (simp add: store_rep_def entity_rep_def demo_entity_def id_cap_def mem_fs_def entity_at_def)
qed

text \<open>A store with one item.\<close>

definition ghost_state :: "mem_world api_state" where
  "ghost_state = \<lparr>world = [(''r/S/1'', File ''a''), (''r/S'', Dir), (''r'', Dir)], path_counts = [''S'' \<mapsto> [1]]\<rparr>"

lemma ghost_state_rep: "store_rep mem_fs ''r'' {''S''} 1 ghost_state [''S'' \<mapsto> [1 \<mapsto> ''a'']]"
proof -
  have one: "item_at ''r'' ''S'' 1 = ''r/S/1''" by code_simp
  have "map_of (world ghost_state) (item_at ''r'' ''S'' i) = (if i = 1 then Some (File ''a'') else None)" for i
  proof (cases "i = 1")
    case True
    then show ?thesis by (simp add: ghost_state_def one)
  next
    case False
    then have "item_at ''r'' ''S'' i \<noteq> ''r/S/1''" using item_at_eq_iff [of "''S''" "''S''" "''r''" i 1] by (simp add: one)
    with False show ?thesis by (simp add: ghost_state_def item_at_def)
  qed
  then have "item_node mem_fs (world ghost_state) (item_at ''r'' ''S'' i) ([1 \<mapsto> ''a''] i)" for i
    by (simp add: item_node_def mem_fs_def mem_file_def)
  moreover have "tree_path ''r'' {''S''} ''r/S/1''" unfolding one [symmetric] by (rule tree_pathI) (simp_all add: in_int_code)
  then have "tree_rep mem_fs ''r'' {''S''} (world ghost_state)"
    by (auto simp: tree_rep_def ghost_state_def mem_fs_def tree_path_def entity_at_def)
  moreover have "ids_ok 1 [1]" unfolding ids_ok_def by (intro conjI exI [of _ "[1]"] exI [of _ "[]"]) auto
  ultimately show ?thesis
    using demo_storage
    by (simp add: store_rep_def entity_rep_def ghost_state_def id_cap_def mem_fs_def entity_at_def)
qed

lemma ghost_state_walk:
  "fs_walk mem_fs (world ghost_state) ''r'' = Inr [''r/S/1'', ''r/S'']" "item_at ''r'' ''S'' 1 = ''r/S/1''"
  by (simp add: mem_fs_def ghost_state_def) code_simp

lemma concurrent_posts_collide_witness:
  "\<exists>i s' a. a = (Status_created, created_body (''r'' @ ''/'' @ ''S'') i) \<and>
     par_step\<^sup>*\<^sup>* (demo_entity, map (api_client mem_fs ''/api'' ''r'') [(demo_user, Post ''S'' ''a''), (demo_user, Post ''S'' ''b'')])
       (s', [Done a, Done a]) \<and> fs_read mem_fs (world s') (item_at ''r'' ''S'' i) = Some ''b''"
  using concurrent_posts_collide [OF demo_entity_rep, of "''S''" Map.empty demo_user demo_user "''/api''" "''a''" "''b''"]
  by (auto simp: demo_user_def id_cap_def)

lemma deleted_id_returns_witness:
  "\<exists>s' ids. par_step\<^sup>*\<^sup>* (ghost_state, map (api_client mem_fs ''/api'' ''r'') [(demo_visitor, Get ''S'' 1), (demo_user, Delete ''S'' 1)])
      (s', [Done (Status_bad_request, bad_body), Done (Status_ok, deleted_body)]) \<and>
     1 \<in> set ids \<and> api_exec mem_fs ''/api'' ''r'' s' (demo_visitor, List ''S'') = Inr (s', Status_ok, list_body ids)"
  using deleted_id_returns [OF ghost_state_rep, of "''S''" 1 "''a''" demo_user, OF _ _ _ ghost_state_walk(1), of "''/api''" demo_visitor demo_visitor]
  by (auto simp: items_def demo_user_def ghost_state_walk(2))

lemma get_reads_opened_file_witness:
  "\<exists>s'. par_step\<^sup>*\<^sup>* (ghost_state, map (api_client mem_fs ''/api'' ''r'') [(demo_visitor, Get ''S'' 1), (demo_user, Put ''S'' 1 ''b'')])
      (s', [Done (Status_ok, []), Done (Status_ok, ''b'')]) \<and>
     fs_read mem_fs (world s') (item_at ''r'' ''S'' 1) = Some ''b''"
  using get_reads_opened_file [OF ghost_state_rep, of "''S''" 1 "''a''" demo_user "''b''" "''/api''" demo_visitor]
  by (auto simp: items_def demo_user_def)

text \<open>Two requests that are refused, of a visitor.\<close>

lemma constructors_race_witness:
  "\<exists>ids k1 k2. par_step\<^sup>*\<^sup>*
     (ghost_state, [api_thread mem_fs (client_handler ''/api'' ''r'' (demo_visitor, List ''X'')) (op_request (List ''X'')),
       api_thread mem_fs (client_handler ''/api'' ''r'' (demo_visitor, Post ''X'' ''b'')) (op_request (Post ''X'' ''b''))])
     (ghost_state, [tbind (store_ids ''S'' ids) k1, tbind (store_ids ''S'' ids) k2])"
  by (rule constructors_race [OF ghost_state_rep, of _ 1 "''a''", OF _ _ ghost_state_walk(1)])
    (simp_all add: items_def ghost_state_walk(2))

end
