(* ===== verification/Profile_Manager.thy ===== *)
theory Profile_Manager
  imports Http Filesystem
begin

text \<open>
  The user database (\<^verbatim>\<open>src/src/profile_manager.cc\<close>): one line
  \<^verbatim>\<open>id|email|name|hash\<close> per user in the file \<^verbatim>\<open>user_database.txt\<close>. SHA-256 (OpenSSL) is a
  parameter that gives the bytes of a digest; the code relies on their number (32) and range.

  The abstract specification is a list of users; \<open>db_file\<close> relates it to the file. The
  locale \<open>user_store\<close> states what the operations promise on the abstract list, and its
  interpretation proves that the code implements it.
\<close>

section \<open>Splitting at bars\<close>

text \<open>The loop shared by \<^verbatim>\<open>signup_string\<close> and \<^verbatim>\<open>update_cookie\<close>.\<close>

function split_loop :: "string \<Rightarrow> nat \<Rightarrow> string list \<Rightarrow> string list" where
  "split_loop data begin info =
     (case find_char_from CHR ''|'' data begin of
        Some e \<Rightarrow> split_loop data (e + 1) (info @ [take (e - begin) (drop begin data)])
      | None \<Rightarrow> if begin < length data then info @ [drop begin data] else info)"
  by pat_completeness auto
termination
proof (relation "measure (\<lambda>(data, begin, info). length data - begin)")
  fix data :: string and b info e
  assume "find_char_from CHR ''|'' data b = Some e"
  then show "((data, e + 1, info @ [take (e - b) (drop b data)]), data, b, info)
      \<in> measure (\<lambda>(data, begin, info). length data - begin)"
    using find_char_from_bounds [of "CHR ''|''" data b e] by simp
qed simp

declare split_loop.simps [simp del]

definition split_fields :: "string \<Rightarrow> string list" where
  "split_fields data = split_loop data 0 []"

section \<open>Passwords\<close>

definition hex_digit :: "nat \<Rightarrow> char" where
  "hex_digit n = (if n < 10 then char_of (48 + n) else char_of (87 + n))"

definition hex_byte :: "nat \<Rightarrow> string" where
  "hex_byte b = [hex_digit (b div 16), hex_digit (b mod 16)]"

definition hash_pass :: "(string \<Rightarrow> nat list) \<Rightarrow> string \<Rightarrow> string" where
  "hash_pass sha256 password = concat (map hex_byte (sha256 password))"

text \<open>What the code relies on of SHA-256.\<close>

definition digest_ok :: "(string \<Rightarrow> nat list) \<Rightarrow> bool" where
  "digest_ok sha256 \<longleftrightarrow> (\<forall>p. length (sha256 p) = 32 \<and> (\<forall>b \<in> set (sha256 p). b < 256))"

section \<open>Operations\<close>

definition data_path :: "string \<Rightarrow> string" where
  "data_path directory_path = directory_path @ ''user_database.txt''"

definition file_lines :: "'w fs_ops \<Rightarrow> 'w \<Rightarrow> string \<Rightarrow> string list" where
  "file_lines fs w p = (case fs_read fs w p of None \<Rightarrow> [] | Some c \<Rightarrow> getlines c)"

definition no_profile :: "string \<Rightarrow> user_profile" where
  "no_profile reason = \<lparr>user_id = -1, username = reason, email = [], login_status = False\<rparr>"

text \<open>
  The body of the loop of \<^verbatim>\<open>login\<close> for one line: \<open>None\<close> continues with the next line,
  otherwise the call returns with the profile and the result. The third test of the source
  repeats \<^verbatim>\<open>email_end\<close> instead of \<^verbatim>\<open>name_end\<close>, so a line may have no third bar.
\<close>

definition login_line ::
  "(string \<Rightarrow> nat list) \<Rightarrow> string \<Rightarrow> string \<Rightarrow> string \<Rightarrow> (user_profile \<times> bool) option result" where
  "login_line sha256 eml password line =
     (case find_char CHR ''|'' line of
        None \<Rightarrow> Inr None
      | Some id_end \<Rightarrow>
          (case find_char_from CHR ''|'' line (id_end + 1) of
             None \<Rightarrow> Inr None
           | Some email_end \<Rightarrow>
               let name_end = find_char_from CHR ''|'' line (email_end + 1) in
               ebind (substr line (id_end + 1) (Some (email_end - id_end - 1))) (\<lambda>line_email.
               if line_email = eml then
                 ebind (substr line (pos_succ name_end) (Some 64)) (\<lambda>line_hash.
                 if hash_pass sha256 password = line_hash then
                   ebind (stoi (take id_end line)) (\<lambda>i.
                   ebind (substr line (email_end + 1) (pos_count name_end email_end)) (\<lambda>name.
                   Inr (Some (\<lparr>user_id = i, username = name, email = line_email,
                     login_status = True\<rparr>, True))))
                 else Inr (Some (no_profile [], False)))
               else Inr None)))"

fun login_loop ::
  "(string \<Rightarrow> nat list) \<Rightarrow> string \<Rightarrow> string \<Rightarrow> string list \<Rightarrow> (user_profile \<times> bool) result" where
  "login_loop sha256 eml password [] =
     Inr (no_profile ''Email address not present within database'', False)"
| "login_loop sha256 eml password (line # ls) =
     ebind (login_line sha256 eml password line) (\<lambda>r.
       case r of Some res \<Rightarrow> Inr res | None \<Rightarrow> login_loop sha256 eml password ls)"

definition login ::
  "'w fs_ops \<Rightarrow> (string \<Rightarrow> nat list) \<Rightarrow> string \<Rightarrow> 'w \<Rightarrow> string \<Rightarrow> string \<Rightarrow> (user_profile \<times> bool) result" where
  "login fs sha256 dir w eml password =
     ebind (fs_exists fs w (data_path dir)) (\<lambda>ex.
      if ex then login_loop sha256 eml password (file_lines fs w (data_path dir))
      else Inr (no_profile ''Database file does not exist'', False))"

definition line_email_is :: "string \<Rightarrow> string \<Rightarrow> bool result" where
  "line_email_is eml line =
     (case find_char CHR ''|'' line of
        None \<Rightarrow> Inr False
      | Some id_end \<Rightarrow>
          ebind (substr line (id_end + 1) (pos_count (find_char_from CHR ''|'' line (id_end + 1)) id_end))
            (\<lambda>db_email. Inr (eml = db_email)))"

fun email_loop :: "string \<Rightarrow> string list \<Rightarrow> bool result" where
  "email_loop eml [] = Inr False"
| "email_loop eml (line # ls) =
     ebind (line_email_is eml line) (\<lambda>found. if found then Inr True else email_loop eml ls)"

definition email_exists :: "'w fs_ops \<Rightarrow> string \<Rightarrow> 'w \<Rightarrow> string \<Rightarrow> bool result" where
  "email_exists fs dir w eml =
     ebind (fs_exists fs w (data_path dir)) (\<lambda>ex.
      if ex then email_loop eml (file_lines fs w (data_path dir)) else Inr False)"

text \<open>
  The loop of \<^verbatim>\<open>signup\<close>: \<open>None\<close> when the address is in the database, otherwise the
  number of users (an \<^verbatim>\<open>int\<close>).
\<close>

fun count_users :: "string \<Rightarrow> string list \<Rightarrow> int \<Rightarrow> int option result" where
  "count_users eml [] num_users = Inr (Some num_users)"
| "count_users eml (line # ls) num_users =
     (if find_char CHR ''|'' line \<noteq> None then
        ebind (check_int (num_users + 1)) (\<lambda>n.
        ebind (line_email_is eml line) (\<lambda>found.
          if found then Inr None else count_users eml ls n))
      else count_users eml ls num_users)"

definition user_line :: "int \<Rightarrow> string \<Rightarrow> string \<Rightarrow> string \<Rightarrow> string" where
  "user_line i eml name hash =
     to_string i @ ''|'' @ eml @ ''|'' @ name @ ''|'' @ hash @ [CHR 0x0A]"

definition signup ::
  "'w fs_ops \<Rightarrow> (string \<Rightarrow> nat list) \<Rightarrow> string \<Rightarrow> 'w \<Rightarrow> string \<Rightarrow> string \<Rightarrow> string \<Rightarrow> ('w \<times> bool) result" where
  "signup fs sha256 dir w eml name password =
     (let p = data_path dir in
      ebind (fs_exists fs w p) (\<lambda>ex.
      if ex then
        ebind (count_users eml (file_lines fs w p) 0) (\<lambda>r.
          case r of
            None \<Rightarrow> Inr (w, False)
          | Some num_users \<Rightarrow>
              ebind (check_int (num_users + 1)) (\<lambda>user_id.
              Inr (fs_append fs w p (user_line user_id eml name (hash_pass sha256 password)), True)))
      else Inr (fs_write fs w p (user_line 1 eml name (hash_pass sha256 password)), True)))"

definition signup_string ::
  "'w fs_ops \<Rightarrow> (string \<Rightarrow> nat list) \<Rightarrow> string \<Rightarrow> 'w \<Rightarrow> string \<Rightarrow> ('w \<times> bool) result" where
  "signup_string fs sha256 dir w data =
     (let info = split_fields data in
      if length info \<noteq> 3 then Inr (w, False)
      else signup fs sha256 dir w (info ! 2) (info ! 0) (info ! 1))"

definition update_cookie ::
  "'w fs_ops \<Rightarrow> (string \<Rightarrow> nat list) \<Rightarrow> string \<Rightarrow> 'w \<Rightarrow> string \<Rightarrow> string result" where
  "update_cookie fs sha256 dir w cookie_string =
     (let info = split_fields cookie_string in
      if length info \<noteq> 3 then Inr []
      else if info ! 0 = ''crazyCode'' then
        ebind (login fs sha256 dir w (info ! 1) (info ! 2)) (\<lambda>(found_user, ok).
          if ok then Inr ([CHR 0x22] @ to_string (user_id found_user) @ ''|'' @ username found_user @
            ''|'' @ email found_user @ [CHR 0x22])
          else Inr [])
      else Inr [])"

section \<open>The split loop\<close>

lemma split_on_first:
  "find_char d s = Some i \<Longrightarrow> split_on d acc s = (rev acc @ take i s) # split_on d [] (drop (Suc i) s)"
proof (induction s arbitrary: acc i)
  case (Cons c s)
  then show ?case by (cases "c = d") auto
qed simp

lemma split_loop_eq: "split_loop data b info = info @ split_on CHR ''|'' [] (drop b data)"
proof (induction data b info rule: split_loop.induct)
  case (1 data b info)
  show ?case
  proof (cases "find_char CHR ''|'' (drop b data)")
    case None
    then have "split_on CHR ''|'' [] (drop b data) = (if drop b data = [] then [] else [drop b data])"
      by (subst split_on_last) (simp_all add: find_char_None_iff)
    with None show ?thesis by (simp add: split_loop.simps [of data b info] find_char_from_def)
  next
    case (Some i)
    then have f: "find_char_from CHR ''|'' data b = Some (b + i)" by (simp add: find_char_from_def)
    have "split_loop data b info = split_loop data (b + i + 1) (info @ [take i (drop b data)])"
      by (simp add: split_loop.simps [of data b info] f)
    also have "\<dots> = (info @ [take i (drop b data)]) @ split_on CHR ''|'' [] (drop (b + i + 1) data)"
      using "1.IH" [OF f] by simp
    also have "drop (b + i + 1) data = drop (Suc i) (drop b data)" by (simp add: add.commute)
    finally show ?thesis using split_on_first [OF Some, of "[]"] by simp
  qed
qed

lemma split_fields_eq: "split_fields data = split_on CHR ''|'' [] data"
  by (simp add: split_fields_def split_loop_eq)

lemma split_fields_three:
  assumes "CHR ''|'' \<notin> set a" and "CHR ''|'' \<notin> set b" and "CHR ''|'' \<notin> set c" and "c \<noteq> []"
  shows "split_fields (a @ ''|'' @ b @ ''|'' @ c) = [a, b, c]"
  using assms by (simp add: split_fields_eq split_on_field split_on_last)

section \<open>Hashes\<close>

lemma length_hash_pass: "digest_ok sha256 \<Longrightarrow> length (hash_pass sha256 p) = 64"
proof -
  assume "digest_ok sha256"
  then have "length (sha256 p) = 32" by (simp add: digest_ok_def)
  moreover have "length (concat (map hex_byte bs)) = 2 * length bs" for bs
    by (induction bs) (simp_all add: hex_byte_def)
  ultimately show ?thesis by (simp add: hash_pass_def)
qed

lemma of_char_hex_digit: "n < 16 \<Longrightarrow> (of_char (hex_digit n) :: nat) = (if n < 10 then 48 + n else 87 + n)"
  by (simp add: hex_digit_def)

lemma hex_digit_inj: "m < 16 \<Longrightarrow> n < 16 \<Longrightarrow> hex_digit m = hex_digit n \<Longrightarrow> m = n"
  by (drule arg_cong [where f = "of_char :: char \<Rightarrow> nat"]) (auto simp: of_char_hex_digit split: if_splits)

lemma hex_byte_inj:
  assumes "a < 256" and "b < 256" and "hex_byte a = hex_byte b"
  shows "a = b"
proof -
  have "a div 16 = b div 16"
    using hex_digit_inj [of "a div 16" "b div 16"] assms by (simp add: hex_byte_def)
  moreover have "a mod 16 = b mod 16"
    using hex_digit_inj [of "a mod 16" "b mod 16"] assms(3) by (simp add: hex_byte_def)
  ultimately show ?thesis by (metis div_mult_mod_eq)
qed

lemma concat_hex_inj:
  "\<forall>b \<in> set xs. b < 256 \<Longrightarrow> \<forall>b \<in> set ys. b < 256 \<Longrightarrow> length xs = length ys \<Longrightarrow>
     concat (map hex_byte xs) = concat (map hex_byte ys) \<Longrightarrow> xs = ys"
proof (induction xs ys rule: list_induct2')
  case (4 x xs y ys)
  then have "hex_byte x = hex_byte y" "concat (map hex_byte xs) = concat (map hex_byte ys)"
    by (simp_all add: hex_byte_def)
  moreover from 4(2,3) have "x < 256" "y < 256" by simp_all
  ultimately have "x = y" using hex_byte_inj by blast
  with \<open>concat (map hex_byte xs) = concat (map hex_byte ys)\<close> 4 show ?case by simp
qed simp_all

lemma hash_pass_eq_iff:
  "digest_ok sha256 \<Longrightarrow> hash_pass sha256 p = hash_pass sha256 q \<longleftrightarrow> sha256 p = sha256 q"
  using concat_hex_inj [of "sha256 p" "sha256 q"] by (auto simp: digest_ok_def hash_pass_def)

lemma hash_pass_chars:
  assumes "digest_ok sha256"
  shows "CHR ''|'' \<notin> set (hash_pass sha256 p)" and "CHR 0x0A \<notin> set (hash_pass sha256 p)"
proof -
  have "48 \<le> (of_char c :: nat) \<and> (of_char c :: nat) \<le> 102" if "c \<in> set (hash_pass sha256 p)" for c
  proof -
    from that obtain b where "b \<in> set (sha256 p)" and c: "c \<in> set (hex_byte b)" by (auto simp: hash_pass_def)
    with assms have "b < 256" unfolding digest_ok_def by blast
    then have "b div 16 < 16" by simp
    with c show ?thesis by (auto simp: hex_byte_def of_char_hex_digit)
  qed
  then show "CHR ''|'' \<notin> set (hash_pass sha256 p)" "CHR 0x0A \<notin> set (hash_pass sha256 p)"
    by fastforce+
qed

section \<open>The abstract database\<close>

record user =
  u_id :: int
  u_email :: string
  u_name :: string
  u_hash :: string

definition plain :: "string \<Rightarrow> bool" where
  "plain s \<longleftrightarrow> CHR ''|'' \<notin> set s \<and> CHR 0x0A \<notin> set s"

definition wf_user :: "user \<Rightarrow> bool" where
  "wf_user u \<longleftrightarrow> in_int (u_id u) \<and> plain (u_email u) \<and> plain (u_name u) \<and> plain (u_hash u) \<and>
     length (u_hash u) = 64"

definition print_user :: "user \<Rightarrow> string" where
  "print_user u = user_line (u_id u) (u_email u) (u_name u) (u_hash u)"

text \<open>Users are numbered from 1 in the order of their lines, and no address occurs twice.\<close>

definition users_ok :: "user list \<Rightarrow> bool" where
  "users_ok us \<longleftrightarrow> (\<forall>u \<in> set us. wf_user u) \<and> map u_id us = map int [1..<Suc (length us)] \<and>
     distinct (map u_email us)"

definition db_file :: "'w fs_ops \<Rightarrow> string \<Rightarrow> 'w \<Rightarrow> user list \<Rightarrow> bool" where
  "db_file fs dir w us \<longleftrightarrow> users_ok us \<and> fs_can_write fs w (data_path dir) \<and>
     (case fs_exists fs w (data_path dir) of
        Inl _ \<Rightarrow> False
      | Inr ex \<Rightarrow>
          if ex then fs_read fs w (data_path dir) = Some (concat (map print_user us)) else us = [])"

text \<open>The abstract operations.\<close>

fun find_user :: "string \<Rightarrow> user list \<Rightarrow> user option" where
  "find_user e [] = None"
| "find_user e (u # us) = (if u_email u = e then Some u else find_user e us)"

definition profile_of :: "user \<Rightarrow> user_profile" where
  "profile_of u = \<lparr>user_id = u_id u, username = u_name u, email = u_email u, login_status = True\<rparr>"

section \<open>One line\<close>

definition line_of :: "user \<Rightarrow> string" where
  "line_of u = to_string (u_id u) @ ''|'' @ u_email u @ ''|'' @ u_name u @ ''|'' @ u_hash u"

lemma print_user_line: "print_user u = line_of u @ [CHR 0x0A]"
  by (simp add: print_user_def user_line_def line_of_def)

lemma line_of_plain: "wf_user u \<Longrightarrow> CHR 0x0A \<notin> set (line_of u)"
  by (simp add: line_of_def wf_user_def plain_def to_string_no_bar)

lemma getlines_users: "\<forall>u \<in> set us. wf_user u \<Longrightarrow> getlines (concat (map print_user us)) = map line_of us"
  by (induction us) (simp_all add: print_user_line getlines_line line_of_plain)

text \<open>Where the bars of a line are and what stands between them.\<close>

lemma line_shape:
  assumes wf: "wf_user u"
  obtains a b c where "find_char CHR ''|'' (line_of u) = Some a"
    and "find_char_from CHR ''|'' (line_of u) (a + 1) = Some b"
    and "find_char_from CHR ''|'' (line_of u) (b + 1) = Some c"
    and "a + 1 \<le> length (line_of u)" and "b + 1 \<le> length (line_of u)" and "c + 1 \<le> length (line_of u)"
    and "take a (line_of u) = to_string (u_id u)"
    and "take (b - a - 1) (drop (a + 1) (line_of u)) = u_email u"
    and "take (c - b - 1) (drop (b + 1) (line_of u)) = u_name u"
    and "take 64 (drop (c + 1) (line_of u)) = u_hash u"
proof -
  define a b c where "a = length (to_string (u_id u))" and "b = a + 1 + length (u_email u)"
    and "c = b + 1 + length (u_name u)"
  let ?l1 = "u_name u @ ''|'' @ u_hash u"
  let ?l2 = "u_email u @ ''|'' @ ?l1"
  have l: "line_of u = to_string (u_id u) @ ''|'' @ ?l2" by (simp add: line_of_def)
  have d1: "drop (a + 1) (line_of u) = ?l2" by (simp add: l a_def)
  have "drop (b + 1) (line_of u) = drop (length (u_email u) + 1) (drop (a + 1) (line_of u))"
    by (simp add: b_def add.commute)
  then have d2: "drop (b + 1) (line_of u) = ?l1" unfolding d1 by simp
  have "drop (c + 1) (line_of u) = drop (length (u_name u) + 1) (drop (b + 1) (line_of u))"
    by (simp add: c_def add.commute)
  then have d3: "drop (c + 1) (line_of u) = u_hash u" unfolding d2 by simp
  have len: "length (line_of u) = c + 1 + length (u_hash u)" by (simp add: l a_def b_def c_def)
  note p = wf [unfolded wf_user_def plain_def]
  have "find_char CHR ''|'' (line_of u) = Some a"
    by (simp add: l a_def find_char_append_notin to_string_no_bar)
  moreover have "find_char_from CHR ''|'' (line_of u) (a + 1) = Some b"
    unfolding find_char_from_def d1 using p by (simp add: find_char_append_notin b_def)
  moreover have "find_char_from CHR ''|'' (line_of u) (b + 1) = Some c"
    unfolding find_char_from_def d2 using p by (simp add: find_char_append_notin c_def)
  moreover have "take a (line_of u) = to_string (u_id u)" by (simp add: l a_def)
  moreover have "take (b - a - 1) (drop (a + 1) (line_of u)) = u_email u" unfolding d1 by (simp add: b_def)
  moreover have "take (c - b - 1) (drop (b + 1) (line_of u)) = u_name u" unfolding d2 by (simp add: c_def)
  moreover have "take 64 (drop (c + 1) (line_of u)) = u_hash u" unfolding d3 using p by simp
  moreover have "a + 1 \<le> length (line_of u)" "b + 1 \<le> length (line_of u)" "c + 1 \<le> length (line_of u)"
    unfolding len b_def c_def by simp_all
  ultimately show thesis using that by blast
qed

lemma login_line_user:
  assumes wf: "wf_user u"
  shows "login_line sha256 e p (line_of u) =
    (if u_email u = e
     then (if hash_pass sha256 p = u_hash u then Inr (Some (profile_of u, True)) else Inr (Some (no_profile [], False)))
     else Inr None)"
proof -
  from wf have i: "stoi (to_string (u_id u)) = Inr (u_id u)" by (simp add: wf_user_def)
  show ?thesis by (rule line_shape [OF wf]) (simp add: login_line_def profile_of_def i)
qed

lemma line_email_is_user:
  assumes "wf_user u"
  shows "find_char CHR ''|'' (line_of u) \<noteq> None" and "line_email_is e (line_of u) = Inr (e = u_email u)"
  by (rule line_shape [OF assms], simp add: line_email_is_def)+

section \<open>The whole file\<close>

lemma login_loop_users:
  "\<forall>u \<in> set us. wf_user u \<Longrightarrow> login_loop sha256 e p (map line_of us) =
     Inr (case find_user e us of
       None \<Rightarrow> (no_profile ''Email address not present within database'', False)
     | Some u \<Rightarrow> if hash_pass sha256 p = u_hash u then (profile_of u, True) else (no_profile [], False))"
  by (induction us) (simp_all add: login_line_user)

lemma email_loop_users:
  "\<forall>u \<in> set us. wf_user u \<Longrightarrow> email_loop e (map line_of us) = Inr (find_user e us \<noteq> None)"
  by (induction us) (simp_all add: line_email_is_user)

lemma count_users_users:
  "\<forall>u \<in> set us. wf_user u \<Longrightarrow> 0 \<le> n \<Longrightarrow> n + int (length us) \<le> int_max \<Longrightarrow>
     count_users e (map line_of us) n =
       Inr (case find_user e us of Some _ \<Rightarrow> None | None \<Rightarrow> Some (n + int (length us)))"
proof (induction us arbitrary: n)
  case (Cons u us)
  then have "in_int (n + 1)" by (simp add: in_int_def int_min_def)
  moreover have "wf_user u" using Cons.prems by simp
  ultimately show ?case
    using Cons by (simp add: line_email_is_user algebra_simps del: not_None_eq split: option.split)
qed simp

lemma find_user_None_iff: "find_user e us = None \<longleftrightarrow> e \<notin> u_email ` set us"
  by (induction us) auto

lemma find_user_append:
  "find_user e (us @ vs) = (case find_user e us of Some u \<Rightarrow> Some u | None \<Rightarrow> find_user e vs)"
  by (induction us) simp_all

lemma db_file_wf: "db_file fs dir w us \<Longrightarrow> \<forall>u \<in> set us. wf_user u"
  by (simp add: db_file_def users_ok_def)

lemma db_file_cases [consumes 1, case_names present absent]:
  assumes "db_file fs dir w us"
  obtains "fs_exists fs w (data_path dir) = Inr True"
    and "fs_read fs w (data_path dir) = Some (concat (map print_user us))"
    and "file_lines fs w (data_path dir) = map line_of us"
  | "fs_exists fs w (data_path dir) = Inr False" and "us = []"
  using assms
  by (cases "fs_exists fs w (data_path dir)")
    (auto simp: db_file_def users_ok_def file_lines_def getlines_users split: if_splits)

lemma users_ok_snoc:
  assumes "users_ok us" and "find_user (u_email u) us = None" and "wf_user u"
    and "u_id u = int (length us) + 1"
  shows "users_ok (us @ [u])"
  using assms by (auto simp: users_ok_def find_user_None_iff)

lemma login_refines:
  assumes "db_file fs dir w us"
  shows "find_user e us = Some u \<Longrightarrow> login fs sha256 dir w e p =
      Inr (if hash_pass sha256 p = u_hash u then (profile_of u, True) else (no_profile [], False))"
    and "find_user e us = None \<Longrightarrow> \<exists>reason. login fs sha256 dir w e p = Inr (no_profile reason, False)"
proof -
  note wf = db_file_wf [OF assms]
  show "find_user e us = Some u \<Longrightarrow> login fs sha256 dir w e p =
      Inr (if hash_pass sha256 p = u_hash u then (profile_of u, True) else (no_profile [], False))"
    using assms by (cases rule: db_file_cases) (simp_all add: login_def login_loop_users wf)
  show "find_user e us = None \<Longrightarrow> \<exists>reason. login fs sha256 dir w e p = Inr (no_profile reason, False)"
    using assms by (cases rule: db_file_cases) (auto simp: login_def login_loop_users wf)
qed

lemma email_exists_refines:
  assumes "db_file fs dir w us"
  shows "email_exists fs dir w e = Inr (find_user e us \<noteq> None)"
  using assms by (cases rule: db_file_cases) (simp_all add: email_exists_def email_loop_users db_file_wf [OF assms])

lemma signup_refines_old:
  assumes "db_file fs dir w us" and "find_user e us = Some u" and "int (length us) \<le> int_max"
  shows "signup fs sha256 dir w e name p = Inr (w, False)"
  using assms by (cases rule: db_file_cases)
    (simp_all add: signup_def Let_def count_users_users db_file_wf [OF assms(1)])

lemma signup_refines_new:
  assumes fs: "fs_lawful fs" and sha: "digest_ok sha256" and db: "db_file fs dir w us"
    and e: "find_user e us = None" and plain: "plain e" "plain name" and len: "int (length us) < int_max"
  shows "\<exists>w'. signup fs sha256 dir w e name p = Inr (w', True) \<and>
    db_file fs dir w' (us @ [\<lparr>u_id = int (length us) + 1, u_email = e, u_name = name, u_hash = hash_pass sha256 p\<rparr>])"
proof -
  define u where "u = \<lparr>u_id = int (length us) + 1, u_email = e, u_name = name, u_hash = hash_pass sha256 p\<rparr>"
  have i: "in_int (int (length us) + 1)" using len by (simp add: in_int_def int_min_def)
  have wf: "wf_user u"
    using plain i sha by (simp add: u_def wf_user_def hash_pass_chars length_hash_pass plain_def)
  have cw: "fs_can_write fs w (data_path dir)" and ok: "users_ok us" using db by (simp_all add: db_file_def)
  have ok': "users_ok (us @ [u])" using users_ok_snoc [OF ok _ wf] e by (simp add: u_def)
  from db show ?thesis
  proof (cases rule: db_file_cases)
    case present
    note r = present(2)
    have "signup fs sha256 dir w e name p = Inr (fs_append fs w (data_path dir) (print_user u), True)"
      using present db_file_wf [OF db] e i len
      by (simp add: signup_def Let_def count_users_users print_user_def u_def)
    moreover have "db_file fs dir (fs_append fs w (data_path dir) (print_user u)) (us @ [u])"
      using ok' fs_writable_append [OF fs cw] fs_read_append [OF fs cw r]
        fs_regular_exists [OF fs fs_regular_append [OF fs cw r]] by (simp add: db_file_def)
    ultimately show ?thesis by (auto simp: u_def)
  next
    case absent
    have "signup fs sha256 dir w e name p = Inr (fs_write fs w (data_path dir) (print_user u), True)"
      using absent by (simp add: signup_def Let_def print_user_def u_def)
    moreover have "db_file fs dir (fs_write fs w (data_path dir) (print_user u)) (us @ [u])"
      using ok' fs_writable_write [OF fs cw] fs_read_write [OF fs cw]
        fs_regular_exists [OF fs fs_regular_write [OF fs cw]] by (simp add: db_file_def absent)
    ultimately show ?thesis by (auto simp: u_def)
  qed
qed

section \<open>The interface\<close>

text \<open>A sequence of signups (address, name, password), and its abstract effect.\<close>

type_synonym registration = "string \<times> string \<times> string"

fun signup_run ::
  "('w \<Rightarrow> string \<Rightarrow> string \<Rightarrow> string \<Rightarrow> ('w \<times> bool) result) \<Rightarrow> 'w \<Rightarrow> registration list \<Rightarrow> 'w result" where
  "signup_run su w [] = Inr w"
| "signup_run su w ((e, n, p) # rs) = ebind (su w e n p) (\<lambda>(w', ok). signup_run su w' rs)"

fun register :: "(string \<Rightarrow> string) \<Rightarrow> user list \<Rightarrow> registration \<Rightarrow> user list" where
  "register hash us (e, n, p) =
     (if find_user e us = None
      then us @ [\<lparr>u_id = int (length us) + 1, u_email = e, u_name = n, u_hash = hash p\<rparr>] else us)"

definition plain_registration :: "registration \<Rightarrow> bool" where
  "plain_registration r \<longleftrightarrow> plain (fst r) \<and> plain (fst (snd r))"

lemma find_user_register:
  "find_user e (register hash us (e', n, p)) =
     (case find_user e us of Some u \<Rightarrow> Some u
      | None \<Rightarrow> if e' = e then Some \<lparr>u_id = int (length us) + 1, u_email = e', u_name = n, u_hash = hash p\<rparr>
          else None)"
  by (auto simp: find_user_append split: option.split)

lemma find_user_run_old:
  "find_user e us = Some u \<Longrightarrow> find_user e (foldl (register hash) us rs) = Some u"
proof (induction rs arbitrary: us)
  case (Cons r rs)
  then show ?case by (cases r) (simp add: find_user_append)
qed simp

lemma find_user_run:
  assumes "find_user e us = None"
  shows "(case find (\<lambda>r. fst r = e) rs of
      None \<Rightarrow> find_user e (foldl (register hash) us rs) = None
    | Some (e', n, p) \<Rightarrow> \<exists>i. find_user e (foldl (register hash) us rs) =
        Some \<lparr>u_id = i, u_email = e, u_name = n, u_hash = hash p\<rparr>)"
  using assms
proof (induction rs arbitrary: us)
  case (Cons r rs)
  obtain e' n p where r: "r = (e', n, p)" by (cases r) auto
  show ?case
  proof (cases "e' = e")
    case True
    then have "find_user e (register hash us r) =
        Some \<lparr>u_id = int (length us) + 1, u_email = e, u_name = n, u_hash = hash p\<rparr>"
      using Cons.prems unfolding r by (subst find_user_register) simp
    from find_user_run_old [OF this] True show ?thesis by (simp add: r)
  next
    case False
    then have "find_user e (register hash us r) = None"
      using Cons.prems unfolding r by (subst find_user_register) simp
    from Cons.IH [OF this] False show ?thesis unfolding foldl_Cons by (simp add: r)
  qed
qed simp

locale user_store =
  fixes rep :: "'w \<Rightarrow> user list \<Rightarrow> bool"
    and su :: "'w \<Rightarrow> string \<Rightarrow> string \<Rightarrow> string \<Rightarrow> ('w \<times> bool) result"
    and li :: "'w \<Rightarrow> string \<Rightarrow> string \<Rightarrow> (user_profile \<times> bool) result"
    and ee :: "'w \<Rightarrow> string \<Rightarrow> bool result"
    and hash :: "string \<Rightarrow> string"
  assumes su_new: "rep w us \<Longrightarrow> find_user e us = None \<Longrightarrow> plain e \<Longrightarrow> plain n \<Longrightarrow>
      int (length us) < int_max \<Longrightarrow> \<exists>w'. su w e n p = Inr (w', True) \<and> rep w' (register hash us (e, n, p))"
    and su_old: "rep w us \<Longrightarrow> find_user e us = Some u \<Longrightarrow> int (length us) \<le> int_max \<Longrightarrow>
      su w e n p = Inr (w, False)"
    and li_known: "rep w us \<Longrightarrow> find_user e us = Some u \<Longrightarrow>
      li w e p = Inr (if hash p = u_hash u then (profile_of u, True) else (no_profile [], False))"
    and li_unknown: "rep w us \<Longrightarrow> find_user e us = None \<Longrightarrow> \<exists>reason. li w e p = Inr (no_profile reason, False)"
    and ee_law: "rep w us \<Longrightarrow> ee w e = Inr (find_user e us \<noteq> None)"
begin

lemma su_register:
  assumes "rep w us" and "plain e" and "plain n" and "int (length us) < int_max"
  shows "\<exists>w' ok. su w e n p = Inr (w', ok) \<and> rep w' (register hash us (e, n, p)) \<and>
    (ok \<longleftrightarrow> find_user e us = None)"
proof (cases "find_user e us")
  case None
  with su_new [OF assms(1) None assms(2-)] show ?thesis by blast
next
  case (Some u)
  with su_old [OF assms(1) Some] assms show ?thesis by auto
qed

lemma run_refines:
  "rep w us \<Longrightarrow> \<forall>r \<in> set rs. plain_registration r \<Longrightarrow> int (length us + length rs) \<le> int_max \<Longrightarrow>
     \<exists>w'. signup_run su w rs = Inr w' \<and> rep w' (foldl (register hash) us rs)"
proof (induction rs arbitrary: w us)
  case (Cons r rs)
  obtain e n p where r: "r = (e, n, p)" by (cases r) auto
  with Cons.prems su_register [of w us e n p] obtain w' ok
    where 1: "su w e n p = Inr (w', ok)" and 2: "rep w' (register hash us r)"
    by (auto simp: plain_registration_def)
  have "length (register hash us r) \<le> Suc (length us)" by (simp add: r)
  with Cons.prems have "int (length (register hash us r) + length rs) \<le> int_max" by simp
  from Cons.IH [OF 2 _ this] Cons.prems 1 show ?case by (simp add: r)
qed simp

lemma first_registration:
  assumes "rep w []" and "\<forall>r \<in> set rs. plain_registration r" and "int (length rs) \<le> int_max"
  shows "\<exists>w'. signup_run su w rs = Inr w' \<and>
    (case find (\<lambda>r. fst r = e) rs of
       None \<Rightarrow> ee w' e = Inr False \<and> (\<exists>reason. li w' e q = Inr (no_profile reason, False))
     | Some (e', n, p) \<Rightarrow> ee w' e = Inr True \<and>
         (if hash q = hash p
          then \<exists>i. li w' e q = Inr (\<lparr>user_id = i, username = n, email = e, login_status = True\<rparr>, True)
          else li w' e q = Inr (no_profile [], False)))"
proof -
  from run_refines [OF assms(1,2)] assms(3) obtain w'
    where run: "signup_run su w rs = Inr w'" and rep: "rep w' (foldl (register hash) [] rs)" by auto
  show ?thesis
  proof (cases "find (\<lambda>r. fst r = e) rs")
    case None
    with find_user_run [where e = e and us = "[]" and rs = rs and hash = hash] have "find_user e (foldl (register hash) [] rs) = None" by simp
    with None run rep ee_law li_unknown show ?thesis by fastforce
  next
    case (Some r)
    obtain e' n p where r: "r = (e', n, p)" by (cases r) auto
    with Some find_user_run [where e = e and us = "[]" and rs = rs and hash = hash] obtain i where
      u: "find_user e (foldl (register hash) [] rs) = Some \<lparr>u_id = i, u_email = e, u_name = n, u_hash = hash p\<rparr>"
      by auto
    have "ee w' e = Inr True" using ee_law [OF rep, of e] u by simp
    with Some r run li_known [OF rep u, of q] show ?thesis by (simp add: profile_of_def)
  qed
qed

end

text \<open>The file as a representation, with what is assumed of the file system and of SHA-256.\<close>

definition db_rep :: "'w fs_ops \<Rightarrow> (string \<Rightarrow> nat list) \<Rightarrow> string \<Rightarrow> 'w \<Rightarrow> user list \<Rightarrow> bool" where
  "db_rep fs sha256 dir w us \<longleftrightarrow> fs_lawful fs \<and> digest_ok sha256 \<and> db_file fs dir w us"

interpretation profiles: user_store "db_rep fs sha256 dir" "signup fs sha256 dir" "login fs sha256 dir"
  "email_exists fs dir" "hash_pass sha256" for fs sha256 dir
proof
  fix w us e n p
  assume "db_rep fs sha256 dir w us" "find_user e us = None" "plain e" "plain n" "int (length us) < int_max"
  with signup_refines_new [of fs sha256 dir w us e n p]
  show "\<exists>w'. signup fs sha256 dir w e n p = Inr (w', True) \<and>
      db_rep fs sha256 dir w' (register (hash_pass sha256) us (e, n, p))" by (simp add: db_rep_def)
qed (auto simp: db_rep_def signup_refines_old login_refines email_exists_refines)

section \<open>Properties\<close>

text \<open>
  C4. The database is a map in which the first registration of an address counts: start
  without a database file and run any sequence of signups whose addresses and names contain
  no bar and no newline. Then \<^verbatim>\<open>email_exists\<close> tells whether an address was registered, and
  \<^verbatim>\<open>login\<close> succeeds exactly when the password has the digest of the one in the first
  registration of the address, with the name given there.
\<close>

theorem signups_then_login:
  assumes "fs_lawful fs" and "digest_ok sha256"
    and "fs_exists fs w (data_path dir) = Inr False" and "fs_can_write fs w (data_path dir)"
    and "\<forall>r \<in> set rs. plain_registration r" and "int (length rs) \<le> int_max"
  shows "\<exists>w'. signup_run (signup fs sha256 dir) w rs = Inr w' \<and>
    (case find (\<lambda>r. fst r = e) rs of
       None \<Rightarrow> email_exists fs dir w' e = Inr False \<and>
         (\<exists>reason. login fs sha256 dir w' e q = Inr (no_profile reason, False))
     | Some (e', n, p) \<Rightarrow> email_exists fs dir w' e = Inr True \<and>
         (if sha256 q = sha256 p
          then \<exists>i. login fs sha256 dir w' e q =
            Inr (\<lparr>user_id = i, username = n, email = e, login_status = True\<rparr>, True)
          else login fs sha256 dir w' e q = Inr (no_profile [], False)))"
proof -
  from assms(1-4) have "db_rep fs sha256 dir w []" by (simp add: db_rep_def db_file_def users_ok_def)
  from profiles.first_registration [OF this assms(5,6), of e q]
  show ?thesis unfolding hash_pass_eq_iff [OF assms(2)] .
qed


text \<open>
  The index loop of \<^verbatim>\<open>signup_string\<close> and \<^verbatim>\<open>update_cookie\<close> is the split at bars in
  which a last empty field is dropped.
\<close>

theorem split_loop_reference:
  "split_fields data = split_on CHR ''|'' [] data \<and> (\<forall>f \<in> set (split_fields data). CHR ''|'' \<notin> set f)"
  using split_on_no_delim [of "CHR ''|''" "[]"] by (simp add: split_fields_eq)

lemma login_line_two_bars:
  assumes sha: "digest_ok sha256" and e: "CHR ''|'' \<notin> set e" and n: "CHR ''|'' \<notin> set n"
  shows "login_line sha256 e q (to_string 1 @ ''|'' @ e @ ''|'' @ n) = Inr (Some (no_profile [], False))"
proof -
  let ?l = "CHR ''1'' # CHR ''|'' # e @ CHR ''|'' # n"
  have one: "to_string 1 = ''1''" by (simp add: to_string_def nat_to_string.simps digit_char_simps)
  have f2: "find_char_from CHR ''|'' ?l 2 = Some (2 + length e)"
    using e by (simp add: find_char_from_def find_char_append_notin)
  have f3: "find_char_from CHR ''|'' ?l (Suc (2 + length e)) = None"
    using n by (simp add: find_char_from_def find_char_None_iff)
  have h: "hash_pass sha256 q \<noteq> take 64 ?l"
  proof
    assume "hash_pass sha256 q = take 64 ?l"
    then have "CHR ''|'' \<in> set (hash_pass sha256 q)" by simp
    then show False using hash_pass_chars(1) [OF sha] by blast
  qed
  have "take 64 ?l = CHR ''1'' # CHR ''|'' # take 62 (e @ CHR ''|'' # n)" by simp
  moreover have "take (length e) (e @ CHR ''|'' # n) = e" by simp
  ultimately show ?thesis using h f2 f3 by (simp add: one login_line_def numeral_2_eq_2 del: take_append)
qed

text \<open>
  A name with a newline locks its user out: the record is broken over two lines,
  and no password, not even the right one, logs in with that address. The signup itself
  answers true.
\<close>

theorem signup_newline_locks_out:
  assumes fs: "fs_lawful fs" and sha: "digest_ok sha256"
    and new: "fs_exists fs w (data_path dir) = Inr False" and cw: "fs_can_write fs w (data_path dir)"
    and e: "plain e" and n: "plain n"
  shows "\<exists>w'. signup fs sha256 dir w e (n @ CHR 0x0A # rest) p = Inr (w', True) \<and>
    login fs sha256 dir w' e q = Inr (no_profile [], False)"
proof -
  define l where "l = to_string 1 @ ''|'' @ e @ ''|'' @ n"
  define c where "c = l @ CHR 0x0A # rest @ ''|'' @ hash_pass sha256 p @ [CHR 0x0A]"
  have su: "signup fs sha256 dir w e (n @ CHR 0x0A # rest) p = Inr (fs_write fs w (data_path dir) c, True)"
    using new by (simp add: signup_def Let_def user_line_def c_def l_def)
  have "CHR 0x0A \<notin> set l" using e n by (simp add: l_def plain_def to_string_no_bar)
  then have "file_lines fs (fs_write fs w (data_path dir) c) (data_path dir) =
      l # getlines (rest @ ''|'' @ hash_pass sha256 p @ [CHR 0x0A])"
    using fs_read_write [OF fs cw] by (simp add: file_lines_def c_def getlines_line)
  moreover have "login_line sha256 e q l = Inr (Some (no_profile [], False))"
    using login_line_two_bars [OF sha, of e n q] e n by (simp add: l_def plain_def)
  ultimately have "login fs sha256 dir (fs_write fs w (data_path dir) c) e q = Inr (no_profile [], False)"
    using fs_regular_exists [OF fs fs_regular_write [OF fs cw]] by (simp add: login_def)
  with su show ?thesis by blast
qed

section \<open>Instances\<close>

text \<open>A concrete digest with 32 bytes.\<close>

definition demo_sha256 :: "string \<Rightarrow> nat list" where
  "demo_sha256 p = take 32 (map of_char p @ replicate 32 0)"

lemma demo_digest_ok: "digest_ok demo_sha256"
  by (auto simp: digest_ok_def demo_sha256_def dest!: in_set_takeD)

lemma split_loop_reference_witness:
  "split_fields ''a||b|'' = [''a'', [], ''b''] \<and> CHR ''|'' \<notin> set (split_fields ''a||b|'' ! 2)"
proof -
  have f: "split_on CHR ''|'' [] ''a||b|'' = [''a'', [], ''b'']" by simp
  have "split_fields ''a||b|'' = [''a'', [], ''b'']" using split_loop_reference [of "''a||b|''"] f by metis
  then show ?thesis by simp
qed

lemma signups_then_login_witness:
  "\<exists>w'. signup_run (signup mem_fs demo_sha256 ''d/'') []
      [(''a@x'', ''Ann'', ''pw''), (''a@x'', ''Eve'', ''xx''), (''b@x'', ''Bob'', ''pw'')] = Inr w' \<and>
    email_exists mem_fs ''d/'' w' ''a@x'' = Inr True \<and>
    (\<exists>i. login mem_fs demo_sha256 ''d/'' w' ''a@x'' ''pw'' =
       Inr (\<lparr>user_id = i, username = ''Ann'', email = ''a@x'', login_status = True\<rparr>, True))"
  using signups_then_login [OF mem_fs_lawful demo_digest_ok, of "[]" "''d/''"
      "[(''a@x'', ''Ann'', ''pw''), (''a@x'', ''Eve'', ''xx''), (''b@x'', ''Bob'', ''pw'')]" "''a@x''" "''pw''"]
  by (simp add: mem_fs_def plain_registration_def plain_def int_max_def)


lemma signup_newline_locks_out_witness:
  "\<exists>w'. signup mem_fs demo_sha256 ''d/'' [] ''a@x'' (''An'' @ CHR 0x0A # ''n'') ''pw'' = Inr (w', True) \<and>
    login mem_fs demo_sha256 ''d/'' w' ''a@x'' ''pw'' = Inr (no_profile [], False)"
  by (rule signup_newline_locks_out [OF mem_fs_lawful demo_digest_ok])
    (simp_all add: mem_fs_def plain_def)

end
