(* ===== verification/Profile_Threads.thy ===== *)
theory Profile_Threads
  imports Profile_Manager Threads
begin

text \<open>
  Signups by several threads (\<^verbatim>\<open>profile_manager::signup\<close>, \<^verbatim>\<open>src/src/profile_manager.cc\<close>). The
  handlers run on all cores and the database file has no lock: a signup asks whether the file
  exists; if so it reads it, looking for the address and counting users, and then opens it
  again to append; if not it creates it, and creating it truncates it. Each of these is one
  step of a thread here. Two signups at once can leave a file that is no database, and the
  first two of all can lose one of the users.
\<close>

section \<open>The steps of a call\<close>

definition signup_steps ::
  "'w fs_ops \<Rightarrow> (string \<Rightarrow> nat list) \<Rightarrow> string \<Rightarrow> registration \<Rightarrow> ('w, bool) thread" where
  "signup_steps fs sha256 dir = (\<lambda>(eml, name, password).
     let p = data_path dir; write = (\<lambda>f. tbind (atomically (\<lambda>w. Inr (f w, ()))) (\<lambda>_. Done True)) in
     tbind (reading (\<lambda>w. fs_exists fs w p)) (\<lambda>ex.
       if ex then
         tbind (reading (\<lambda>w. Inr (file_lines fs w p))) (\<lambda>lines.
         tbind (of_result (count_users eml lines 0)) (\<lambda>r.
           case r of
             None \<Rightarrow> Done False
           | Some num_users \<Rightarrow>
               tbind (of_result (check_int (num_users + 1))) (\<lambda>user_id.
                 write (\<lambda>w. fs_append fs w p (user_line user_id eml name (hash_pass sha256 password))))))
       else
         tbind (atomically (\<lambda>w. Inr (fs_write fs w p [], fs_can_write fs w p))) (\<lambda>opened.
           if opened then write (\<lambda>w. overwrite fs w p (user_line 1 eml name (hash_pass sha256 password)))
           else Done True)))"

definition signup_call ::
  "'w fs_ops \<Rightarrow> (string \<Rightarrow> nat list) \<Rightarrow> string \<Rightarrow> 'w \<Rightarrow> registration \<Rightarrow> ('w \<times> bool) result" where
  "signup_call fs sha256 dir w = (\<lambda>(e, n, p). signup fs sha256 dir w e n p)"

text \<open>One thread alone does what the sequential definition does.\<close>

lemma signup_is_call:
  assumes "fs_rewrites fs"
  shows "run_alone (signup_steps fs sha256 dir reg) w = signup_call fs sha256 dir w reg"
proof -
  have "overwrite fs (fs_write fs w p []) p c = fs_write fs w p c" if "fs_can_write fs w p" for w p c
    using open_then_write [OF assms, of w p c] that by simp
  moreover have "fs_write fs w p c = w" if "\<not> fs_can_write fs w p" for w p c
    using fs_write_failed assms that by (auto simp: fs_rewrites_def)
  ultimately show ?thesis
    by (cases reg) (auto simp: signup_steps_def signup_call_def signup_def Let_def ebind_assoc
        intro!: ebind_cong split: option.split)
qed

section \<open>Interleaved\<close>

lemma line_of_email:
  assumes "wf_user u" and "wf_user v" and "line_of u = line_of v"
  shows "u_email u = u_email v"
  using line_email_is_user(2) [OF assms(1), of "u_email u"] line_email_is_user(2) [OF assms(2), of "u_email u"] assms(3)
  by simp

lemma lines_emails:
  "\<forall>u \<in> set us. wf_user u \<Longrightarrow> \<forall>u \<in> set vs. wf_user u \<Longrightarrow> map line_of us = map line_of vs \<Longrightarrow>
     map u_email us = map u_email vs"
proof (induction us arbitrary: vs)
  case (Cons u us)
  then obtain v vs' where "vs = v # vs'" "line_of u = line_of v" "map line_of us = map line_of vs'" by auto
  with Cons line_of_email [of u v] show ?case by simp
qed simp

text \<open>A file with the lines of users two of which have the same address is not a database.\<close>

lemma not_a_database:
  assumes "\<forall>u \<in> set us. wf_user u" and "\<not> distinct (map u_email us)"
    and "fs_exists fs w (data_path dir) = Inr True" and "fs_read fs w (data_path dir) = Some (concat (map print_user us))"
  shows "\<not> db_file fs dir w us'"
proof
  assume db: "db_file fs dir w us'"
  then have "file_lines fs w (data_path dir) = map line_of us'" by (cases rule: db_file_cases) (use assms(3) in auto)
  moreover have "file_lines fs w (data_path dir) = map line_of us"
    using assms(1,4) by (simp add: file_lines_def getlines_users)
  ultimately have "map u_email us = map u_email us'" using lines_emails [OF assms(1) db_file_wf [OF db]] by simp
  moreover have "distinct (map u_email us')" using db by (simp add: db_file_def users_ok_def)
  ultimately show False using assms(2) by simp
qed

text \<open>A thread that has read the database and found its address free.\<close>

definition signing ::
  "'w fs_ops \<Rightarrow> (string \<Rightarrow> nat list) \<Rightarrow> string \<Rightarrow> int \<Rightarrow> registration \<Rightarrow> ('w, bool) thread" where
  "signing fs sha256 dir i = (\<lambda>(e, n, p).
     tbind (atomically (\<lambda>w. Inr (fs_append fs w (data_path dir) (user_line i e n (hash_pass sha256 p)), ()))) (\<lambda>_. Done True))"

lemma signup_reaches_signing:
  assumes ex: "fs_exists fs w (data_path dir) = Inr True"
    and cnt: "count_users e (file_lines fs w (data_path dir)) 0 = Inr (Some k)" and k: "in_int (k + 1)"
  shows "thread_step\<^sup>*\<^sup>* (w, signup_steps fs sha256 dir (e, n, p)) (w, signing fs sha256 dir (k + 1) (e, n, p))"
  unfolding signup_steps_def prod.case Let_def
proof (rule steps_bind [where s' = w and a = True])
  show "run_alone (reading (\<lambda>w. fs_exists fs w (data_path dir))) w = Inr (w, True)" by (simp add: ex)
qed (simp, rule steps_bind [where s' = w and a = "file_lines fs w (data_path dir)"],
  simp_all add: cnt k of_result_def signing_def)

text \<open>A thread that has found no database and is about to create it.\<close>

definition creating ::
  "'w fs_ops \<Rightarrow> (string \<Rightarrow> nat list) \<Rightarrow> string \<Rightarrow> registration \<Rightarrow> ('w, bool) thread" where
  "creating fs sha256 dir = (\<lambda>(e, n, p).
     tbind (atomically (\<lambda>w. Inr (fs_write fs w (data_path dir) [], fs_can_write fs w (data_path dir)))) (\<lambda>opened.
       if opened then
         tbind (atomically (\<lambda>w. Inr (overwrite fs w (data_path dir) (user_line 1 e n (hash_pass sha256 p)), ()))) (\<lambda>_. Done True)
       else Done True))"

lemma signup_reaches_creating:
  assumes "fs_exists fs w (data_path dir) = Inr False"
  shows "thread_step\<^sup>*\<^sup>* (w, signup_steps fs sha256 dir (e, n, p)) (w, creating fs sha256 dir (e, n, p))"
  unfolding signup_steps_def prod.case Let_def
  by (rule steps_bind [where s' = w and a = False]) (simp_all add: assms creating_def)

lemma creating_runs:
  assumes "fs_lawful fs" and "fs_can_write fs w (data_path dir)"
  shows "thread_step\<^sup>*\<^sup>* (w, creating fs sha256 dir (e, n, p))
    (fs_write fs (fs_write fs w (data_path dir) []) (data_path dir) (user_line 1 e n (hash_pass sha256 p)), Done True)"
  by (rule steps_done) (simp add: creating_def assms overwrite_opened)

section \<open>Properties\<close>


text \<open>
  C24. The first two signups can lose a user: when there is no database yet and two threads find
  this before either creates it, both signups are answered true, but the second creates the
  file anew over the first. The database has the second user only, and the first cannot log in
  with any password.
\<close>

theorem first_signups_lose_user:
  assumes db: "db_rep fs sha256 dir w []" and none: "fs_exists fs w (data_path dir) = Inr False"
    and plain: "plain e" "plain m" "plain e'" "plain n" and ne: "e \<noteq> e'"
  shows "\<exists>w'. par_step\<^sup>*\<^sup>* (w, map (signup_steps fs sha256 dir) [(e, m, p), (e', n, q)]) (w', [Done True, Done True]) \<and>
    db_rep fs sha256 dir w' [\<lparr>u_id = 1, u_email = e', u_name = n, u_hash = hash_pass sha256 q\<rparr>] \<and>
    (\<forall>x. \<exists>profile. login fs sha256 dir w' e x = Inr (profile, False))"
proof -
  from db have fs: "fs_lawful fs" and sha: "digest_ok sha256" and cw: "fs_can_write fs w (data_path dir)"
    by (simp_all add: db_rep_def db_file_def)
  define v where "v = \<lparr>u_id = 1, u_email = e', u_name = n, u_hash = hash_pass sha256 q\<rparr>"
  let ?p = "data_path dir" and ?t = "signup_steps fs sha256 dir" and ?g = "creating fs sha256 dir"
  define w1 where "w1 = fs_write fs (fs_write fs w ?p []) ?p (user_line 1 e m (hash_pass sha256 p))"
  define w2 where "w2 = fs_write fs (fs_write fs w1 ?p []) ?p (print_user v)"
  have cw1: "fs_can_write fs w1 ?p" "fs_can_write fs (fs_write fs w1 ?p []) ?p" "fs_can_write fs w2 ?p"
    unfolding w1_def w2_def by (intro fs_writable_write [OF fs] cw)+
  note reach = signup_reaches_creating [OF none]
  have 1: "par_step\<^sup>*\<^sup>* (w, [?t (e, m, p), ?t (e', n, q)]) (w, [?g (e, m, p), ?t (e', n, q)])"
    using steps_par [of w "[?t (e, m, p), ?t (e', n, q)]" 0] reach by simp
  have 2: "par_step\<^sup>*\<^sup>* (w, [?g (e, m, p), ?t (e', n, q)]) (w, [?g (e, m, p), ?g (e', n, q)])"
    using steps_par [of w "[?g (e, m, p), ?t (e', n, q)]" 1] reach by simp
  have 3: "par_step\<^sup>*\<^sup>* (w, [?g (e, m, p), ?g (e', n, q)]) (w1, [Done True, ?g (e', n, q)])"
    using steps_par [of w "[?g (e, m, p), ?g (e', n, q)]" 0] creating_runs [OF fs cw] by (simp add: w1_def)
  have 4: "par_step\<^sup>*\<^sup>* (w1, [Done True, ?g (e', n, q)]) (w2, [Done True, Done True])"
    using steps_par [of w1 "[Done True, ?g (e', n, q)]" 1] creating_runs [OF fs cw1(1)] by (simp add: w2_def print_user_def v_def)
  have run: "par_step\<^sup>*\<^sup>* (w, map ?t [(e, m, p), (e', n, q)]) (w2, [Done True, Done True])"
    using rtranclp_trans [OF rtranclp_trans [OF 1 2] rtranclp_trans [OF 3 4]] by simp
  have "wf_user v"
    using plain sha by (simp add: v_def wf_user_def hash_pass_chars length_hash_pass plain_def in_int_code)
  then have "users_ok [v]" by (simp add: users_ok_def v_def)
  moreover have "fs_read fs w2 ?p = Some (print_user v)" "fs_exists fs w2 ?p = Inr True"
    using fs_read_write [OF fs cw1(2)] fs_regular_exists [OF fs fs_regular_write [OF fs cw1(2)]] by (simp_all add: w2_def)
  ultimately have rep: "db_rep fs sha256 dir w2 [v]" using fs sha cw1(3) by (simp add: db_rep_def db_file_def)
  have "find_user e [v] = None" using ne by (simp add: v_def)
  from profiles.li_unknown [OF rep this] rep run show ?thesis unfolding v_def by blast
qed

section \<open>Instances\<close>

lemma demo_db_empty: "db_rep mem_fs demo_sha256 ''d/'' [] []"
  using mem_fs_lawful demo_digest_ok by (simp add: db_rep_def db_file_def users_ok_def) (simp add: mem_fs_def)

lemma first_signups_lose_user_witness:
  "\<exists>w'. par_step\<^sup>*\<^sup>* ([], map (signup_steps mem_fs demo_sha256 ''d/'') [(''a@x'', ''Ann'', ''pw''), (''b@x'', ''Bob'', ''xx'')])
      (w', [Done True, Done True]) \<and> (\<exists>profile. login mem_fs demo_sha256 ''d/'' w' ''a@x'' ''pw'' = Inr (profile, False))"
proof -
  have "fs_exists mem_fs [] (data_path ''d/'') = Inr False" by (simp add: mem_fs_def)
  from first_signups_lose_user [OF demo_db_empty this, of "''a@x''" "''Ann''" "''b@x''" "''Bob''" "''pw''" "''xx''"]
  show ?thesis by (auto simp: plain_def)
qed


end
