(* ===== verification/Config_Lexer.thy ===== *)
theory Config_Lexer
  imports Prelude
begin

text \<open>
  The tokenizer of the config file (\<^verbatim>\<open>NginxConfigParser::ParseToken\<close> in
  \<^verbatim>\<open>src/src/config_parser.cc\<close>). The input stream is the list of the characters that are
  still unread; \<^verbatim>\<open>unget\<close> is the choice to leave the character in that list.
\<close>

datatype TokenType =
    TOKEN_TYPE_START
  | TOKEN_TYPE_NORMAL
  | TOKEN_TYPE_START_BLOCK
  | TOKEN_TYPE_END_BLOCK
  | TOKEN_TYPE_COMMENT
  | TOKEN_TYPE_STATEMENT_END
  | TOKEN_TYPE_EOF
  | TOKEN_TYPE_ERROR

datatype TokenParserState =
    TOKEN_STATE_INITIAL_WHITESPACE
  | TOKEN_STATE_SINGLE_QUOTE
  | TOKEN_STATE_DOUBLE_QUOTE
  | TOKEN_STATE_TOKEN_TYPE_COMMENT
  | TOKEN_STATE_TOKEN_TYPE_NORMAL
  | TOKEN_STATE_ESCAPE_SINGLE_QUOTE
  | TOKEN_STATE_ESCAPE_DOUBLE_QUOTE

fun TokenTypeAsString :: "TokenType \<Rightarrow> string" where
  "TokenTypeAsString TOKEN_TYPE_START = ''TOKEN_TYPE_START''"
| "TokenTypeAsString TOKEN_TYPE_NORMAL = ''TOKEN_TYPE_NORMAL''"
| "TokenTypeAsString TOKEN_TYPE_START_BLOCK = ''TOKEN_TYPE_START_BLOCK''"
| "TokenTypeAsString TOKEN_TYPE_END_BLOCK = ''TOKEN_TYPE_END_BLOCK''"
| "TokenTypeAsString TOKEN_TYPE_COMMENT = ''TOKEN_TYPE_COMMENT''"
| "TokenTypeAsString TOKEN_TYPE_STATEMENT_END = ''TOKEN_TYPE_STATEMENT_END''"
| "TokenTypeAsString TOKEN_TYPE_EOF = ''TOKEN_TYPE_EOF''"
| "TokenTypeAsString TOKEN_TYPE_ERROR = ''TOKEN_TYPE_ERROR''"

type_synonym lexed = "TokenType \<times> string \<times> string"

text \<open>
  After a closing quote the next character is read; it is put back when it is a separator,
  anything else (the end of the file too) is an error.
\<close>

definition after_quote :: "string \<Rightarrow> string \<Rightarrow> lexed" where
  "after_quote v cs =
     (case cs of
        [] \<Rightarrow> (TOKEN_TYPE_ERROR, v, [])
      | n # cs' \<Rightarrow>
          if n \<in> {CHR '' '', CHR 0x0A, CHR 0x09, CHR ''{'', CHR ''}'', CHR '';''}
          then (TOKEN_TYPE_NORMAL, v, cs)
          else (TOKEN_TYPE_ERROR, v, cs'))"

fun scan :: "TokenParserState \<Rightarrow> string \<Rightarrow> string \<Rightarrow> lexed" where
  "scan st v [] =
     (if st = TOKEN_STATE_SINGLE_QUOTE \<or> st = TOKEN_STATE_DOUBLE_QUOTE
      then (TOKEN_TYPE_ERROR, v, []) else (TOKEN_TYPE_EOF, v, []))"
| "scan st v (c # cs) =
     (case st of
        TOKEN_STATE_INITIAL_WHITESPACE \<Rightarrow>
          if c = CHR ''{'' then (TOKEN_TYPE_START_BLOCK, [c], cs)
          else if c = CHR ''}'' then (TOKEN_TYPE_END_BLOCK, [c], cs)
          else if c = CHR ''#'' then scan TOKEN_STATE_TOKEN_TYPE_COMMENT [c] cs
          else if c = CHR 0x22 then scan TOKEN_STATE_DOUBLE_QUOTE [c] cs
          else if c = CHR 0x27 then scan TOKEN_STATE_SINGLE_QUOTE [c] cs
          else if c = CHR '';'' then (TOKEN_TYPE_STATEMENT_END, [c], cs)
          else if c \<in> {CHR '' '', CHR 0x09, CHR 0x0A, CHR 0x0D} then scan st v cs
          else scan TOKEN_STATE_TOKEN_TYPE_NORMAL (v @ [c]) cs
      | TOKEN_STATE_SINGLE_QUOTE \<Rightarrow>
          if c = CHR 0x27 then after_quote (v @ [c]) cs
          else if c = CHR 0x5C then scan TOKEN_STATE_ESCAPE_SINGLE_QUOTE v cs
          else scan st (v @ [c]) cs
      | TOKEN_STATE_DOUBLE_QUOTE \<Rightarrow>
          if c = CHR 0x22 then after_quote (v @ [c]) cs
          else if c = CHR 0x5C then scan TOKEN_STATE_ESCAPE_DOUBLE_QUOTE v cs
          else scan st (v @ [c]) cs
      | TOKEN_STATE_TOKEN_TYPE_COMMENT \<Rightarrow>
          if c = CHR 0x0A \<or> c = CHR 0x0D then (TOKEN_TYPE_COMMENT, v, cs)
          else scan st (v @ [c]) cs
      | TOKEN_STATE_TOKEN_TYPE_NORMAL \<Rightarrow>
          if c \<in> {CHR '' '', CHR 0x09, CHR 0x0A, CHR '';'', CHR ''{'', CHR ''}''}
          then (TOKEN_TYPE_NORMAL, v, c # cs)
          else scan st (v @ [c]) cs
      | TOKEN_STATE_ESCAPE_SINGLE_QUOTE \<Rightarrow> scan TOKEN_STATE_SINGLE_QUOTE (v @ [c]) cs
      | TOKEN_STATE_ESCAPE_DOUBLE_QUOTE \<Rightarrow> scan TOKEN_STATE_DOUBLE_QUOTE (v @ [c]) cs)"

definition ParseToken :: "string \<Rightarrow> lexed" where
  "ParseToken input = scan TOKEN_STATE_INITIAL_WHITESPACE [] input"

section \<open>Progress\<close>

text \<open>
  One character either moves the automaton on, ends a quoted token, completes a token, or
  is put back at the end of an unquoted token.
\<close>

definition step_shape :: "TokenParserState \<Rightarrow> string \<Rightarrow> char \<Rightarrow> string \<Rightarrow> lexed \<Rightarrow> bool" where
  "step_shape st v c cs r \<longleftrightarrow>
     (\<exists>st' v'. r = scan st' v' cs) \<or> (\<exists>v'. r = after_quote v' cs) \<or>
     (\<exists>tt w. r = (tt, w, cs) \<and>
        tt \<in> {TOKEN_TYPE_START_BLOCK, TOKEN_TYPE_END_BLOCK, TOKEN_TYPE_STATEMENT_END, TOKEN_TYPE_COMMENT}) \<or>
     st = TOKEN_STATE_TOKEN_TYPE_NORMAL \<and> r = (TOKEN_TYPE_NORMAL, v, c # cs)"

lemma step_shape_intros:
  "step_shape st v c cs (scan st' v' cs)"
  "step_shape st v c cs (after_quote v' cs)"
  "step_shape st v c cs (TOKEN_TYPE_START_BLOCK, w, cs)"
  "step_shape st v c cs (TOKEN_TYPE_END_BLOCK, w, cs)"
  "step_shape st v c cs (TOKEN_TYPE_STATEMENT_END, w, cs)"
  "step_shape st v c cs (TOKEN_TYPE_COMMENT, w, cs)"
  "step_shape TOKEN_STATE_TOKEN_TYPE_NORMAL v c cs (TOKEN_TYPE_NORMAL, v, c # cs)"
  by (auto simp: step_shape_def)

lemma step_shape_if:
  "step_shape st v c cs x \<Longrightarrow> step_shape st v c cs y \<Longrightarrow> step_shape st v c cs (if p then x else y)"
  by simp

lemma scan_step: "step_shape st v c cs (scan st v (c # cs))"
  by (cases st) (simp_all only: scan.simps TokenParserState.case, (intro step_shape_if step_shape_intros)+)

lemma scan_stepE:
  assumes "scan st v (c # cs) = (tt, w, rest)"
  obtains (go) st' v' where "scan st' v' cs = (tt, w, rest)"
  | (quote) v' where "after_quote v' cs = (tt, w, rest)"
  | (token) "rest = cs" and "tt \<noteq> TOKEN_TYPE_START"
  | (unget) "st = TOKEN_STATE_TOKEN_TYPE_NORMAL" and "tt = TOKEN_TYPE_NORMAL" and "rest = c # cs"
  using scan_step [of st v c cs] unfolding assms step_shape_def by auto

lemma after_quote_facts:
  assumes "after_quote v cs = (tt, w, rest)"
  shows "tt = TOKEN_TYPE_NORMAL \<and> w = v \<and> rest = cs \<or> tt = TOKEN_TYPE_ERROR \<and> rest = tl cs"
proof (cases cs)
  case (Cons n cs')
  with assms show ?thesis
    by (cases "n \<in> {CHR '' '', CHR 0x0A, CHR 0x09, CHR ''{'', CHR ''}'', CHR '';''}")
      (simp_all only: after_quote_def list.case if_True if_False, simp_all)
qed (use assms in \<open>simp add: after_quote_def\<close>)

lemma scan_suffix: "scan st v cs = (tt, w, rest) \<Longrightarrow> suffix rest cs \<and> tt \<noteq> TOKEN_TYPE_START"
proof (induction cs arbitrary: st v)
  case (Cons c cs)
  from Cons.prems show ?case
  proof (cases rule: scan_stepE)
    case (go st' v')
    from Cons.IH [OF go] show ?thesis by (simp add: suffix_ConsI)
  next
    case (quote v')
    from after_quote_facts [OF quote] show ?thesis
      by (auto intro: suffix_ConsI suffix_tl)
  qed (simp_all add: suffix_ConsI)
qed (simp split: if_splits)

lemma scan_initial_less:
  assumes "scan TOKEN_STATE_INITIAL_WHITESPACE v cs = (tt, w, rest)"
    and "tt \<noteq> TOKEN_TYPE_EOF" and "tt \<noteq> TOKEN_TYPE_ERROR"
  shows "length rest < length cs"
proof (cases cs)
  case (Cons c cs')
  from assms(1) [unfolded Cons] show ?thesis
  proof (cases rule: scan_stepE)
    case (go st' v')
    with scan_suffix [OF go] Cons show ?thesis by (auto dest: suffix_length_le)
  next
    case (quote v')
    from after_quote_facts [OF quote] assms(3) Cons show ?thesis by auto
  qed (simp_all add: Cons)
qed (use assms in simp)

lemma ParseToken_less:
  assumes "ParseToken input = (tt, w, rest)" and "tt \<noteq> TOKEN_TYPE_EOF" and "tt \<noteq> TOKEN_TYPE_ERROR"
  shows "length rest < length input"
  using assms unfolding ParseToken_def by (rule scan_initial_less)

section \<open>Tokens\<close>

definition separator :: "char \<Rightarrow> bool" where
  "separator c \<longleftrightarrow> c \<in> {CHR '' '', CHR 0x09, CHR 0x0A, CHR '';'', CHR ''{'', CHR ''}''}"

definition plain_token :: "string \<Rightarrow> bool" where
  "plain_token t \<longleftrightarrow>
     (case t of
        [] \<Rightarrow> False
      | c # _ \<Rightarrow> c \<notin> {CHR ''#'', CHR 0x22, CHR 0x27, CHR 0x0D} \<and> list_all (\<lambda>x. \<not> separator x) t)"

definition quoted_token :: "string \<Rightarrow> bool" where
  "quoted_token t \<longleftrightarrow>
     (case t of
        [] \<Rightarrow> False
      | q # r \<Rightarrow> (q = CHR 0x22 \<or> q = CHR 0x27) \<and> r \<noteq> [] \<and> last r = q \<and>
          q \<notin> set (butlast r) \<and> CHR 0x5C \<notin> set (butlast r))"

definition wf_token :: "string \<Rightarrow> bool" where
  "wf_token t \<longleftrightarrow> plain_token t \<or> quoted_token t"

lemma scan_normal:
  "list_all (\<lambda>x. \<not> separator x) t \<Longrightarrow> separator s \<Longrightarrow>
     scan TOKEN_STATE_TOKEN_TYPE_NORMAL v (t @ s # rest) = (TOKEN_TYPE_NORMAL, v @ t, s # rest)"
  by (induction t arbitrary: v) (auto simp: separator_def)

lemma scan_quoted_body:
  "CHR 0x22 \<notin> set b \<Longrightarrow> CHR 0x5C \<notin> set b \<Longrightarrow>
     scan TOKEN_STATE_DOUBLE_QUOTE v (b @ CHR 0x22 # rest) = after_quote (v @ b @ [CHR 0x22]) rest"
  "CHR 0x27 \<notin> set b \<Longrightarrow> CHR 0x5C \<notin> set b \<Longrightarrow>
     scan TOKEN_STATE_SINGLE_QUOTE v (b @ CHR 0x27 # rest) = after_quote (v @ b @ [CHR 0x27]) rest"
  by (induction b arbitrary: v) auto

lemma quoted_tokenE:
  assumes "quoted_token t"
  obtains q b where "t = q # b @ [q]" and "q = CHR 0x22 \<or> q = CHR 0x27"
    and "q \<notin> set b" and "CHR 0x5C \<notin> set b"
proof -
  from assms obtain q r where t: "t = q # r" and q: "q = CHR 0x22 \<or> q = CHR 0x27"
    and r: "r \<noteq> []" "last r = q" "q \<notin> set (butlast r)" "CHR 0x5C \<notin> set (butlast r)"
    by (cases t) (auto simp: quoted_token_def)
  from r(1,2) have "t = q # butlast r @ [q]" using t by (metis append_butlast_last_id)
  from that [OF this q r(3,4)] show thesis .
qed

lemma after_quote_separator: "separator s \<Longrightarrow> after_quote v (s # rest) = (TOKEN_TYPE_NORMAL, v, s # rest)"
  by (auto simp: after_quote_def separator_def)

text \<open>A well-formed token in front of a separator is read back as it is.\<close>

lemma ParseToken_token:
  assumes "wf_token t" and "separator s"
  shows "ParseToken (t @ s # rest) = (TOKEN_TYPE_NORMAL, t, s # rest)"
proof (cases "plain_token t")
  case True
  then obtain c t' where t: "t = c # t'" "c \<notin> {CHR ''#'', CHR 0x22, CHR 0x27, CHR 0x0D}"
    "\<not> separator c" "list_all (\<lambda>x. \<not> separator x) t'"
    by (cases t) (auto simp: plain_token_def)
  then show ?thesis
    using scan_normal [OF t(4) assms(2), of "[c]" rest] by (simp add: ParseToken_def separator_def)
next
  case False
  with assms(1) have "quoted_token t" by (simp add: wf_token_def)
  then obtain q b where t: "t = q # b @ [q]" and q: "q = CHR 0x22 \<or> q = CHR 0x27"
    and b: "q \<notin> set b" "CHR 0x5C \<notin> set b" by (rule quoted_tokenE)
  note aq = after_quote_separator [OF assms(2)]
  from q show ?thesis
  proof
    assume "q = CHR 0x22"
    with t b show ?thesis by (simp add: ParseToken_def scan_quoted_body(1) aq)
  next
    assume "q = CHR 0x27"
    with t b show ?thesis by (simp add: ParseToken_def scan_quoted_body(2) aq)
  qed
qed

definition blank :: "char \<Rightarrow> bool" where
  "blank c \<longleftrightarrow> c \<in> {CHR '' '', CHR 0x09, CHR 0x0A, CHR 0x0D}"

lemma ParseToken_blank [simp]: "blank c \<Longrightarrow> ParseToken (c # rest) = ParseToken rest"
  by (auto simp: ParseToken_def blank_def)

lemma ParseToken_blanks: "list_all blank bs \<Longrightarrow> ParseToken (bs @ rest) = ParseToken rest"
  by (induction bs) auto

lemma ParseToken_symbols [simp]:
  "ParseToken [] = (TOKEN_TYPE_EOF, [], [])"
  "ParseToken (CHR '';'' # rest) = (TOKEN_TYPE_STATEMENT_END, '';'', rest)"
  "ParseToken (CHR ''{'' # rest) = (TOKEN_TYPE_START_BLOCK, ''{'', rest)"
  "ParseToken (CHR ''}'' # rest) = (TOKEN_TYPE_END_BLOCK, ''}'', rest)"
  by (simp_all add: ParseToken_def)

section \<open>What the tokenizer returns without escapes\<close>

lemma scan_normal_value:
  assumes "scan TOKEN_STATE_TOKEN_TYPE_NORMAL v cs = (TOKEN_TYPE_NORMAL, w, rest)"
  shows "\<exists>t. w = v @ t \<and> list_all (\<lambda>x. \<not> separator x) t"
  using assms
proof (induction cs arbitrary: v)
  case (Cons c cs)
  then show ?case
    by (auto simp: separator_def split: if_splits) (force simp: separator_def)
qed simp

lemma scan_double_value:
  "scan TOKEN_STATE_DOUBLE_QUOTE v cs = (TOKEN_TYPE_NORMAL, w, rest) \<Longrightarrow> CHR 0x5C \<notin> set cs \<Longrightarrow>
     \<exists>b. w = v @ b @ [CHR 0x22] \<and> CHR 0x22 \<notin> set b \<and> CHR 0x5C \<notin> set b"
proof (induction cs arbitrary: v)
  case (Cons c cs)
  show ?case
  proof (cases "c = CHR 0x22")
    case True
    with Cons.prems show ?thesis by (auto dest: after_quote_facts)
  next
    case False
    with Cons.prems have "scan TOKEN_STATE_DOUBLE_QUOTE (v @ [c]) cs = (TOKEN_TYPE_NORMAL, w, rest)"
      by (auto split: if_splits)
    from Cons.IH [OF this] Cons.prems(2) obtain b where "w = (v @ [c]) @ b @ [CHR 0x22]"
      "CHR 0x22 \<notin> set b" "CHR 0x5C \<notin> set b" by auto
    with False Cons.prems(2) show ?thesis by (intro exI [of _ "c # b"]) auto
  qed
qed simp

lemma scan_single_value:
  "scan TOKEN_STATE_SINGLE_QUOTE v cs = (TOKEN_TYPE_NORMAL, w, rest) \<Longrightarrow> CHR 0x5C \<notin> set cs \<Longrightarrow>
     \<exists>b. w = v @ b @ [CHR 0x27] \<and> CHR 0x27 \<notin> set b \<and> CHR 0x5C \<notin> set b"
proof (induction cs arbitrary: v)
  case (Cons c cs)
  show ?case
  proof (cases "c = CHR 0x27")
    case True
    with Cons.prems show ?thesis by (auto dest: after_quote_facts)
  next
    case False
    with Cons.prems have "scan TOKEN_STATE_SINGLE_QUOTE (v @ [c]) cs = (TOKEN_TYPE_NORMAL, w, rest)"
      by (auto split: if_splits)
    from Cons.IH [OF this] Cons.prems(2) obtain b where "w = (v @ [c]) @ b @ [CHR 0x27]"
      "CHR 0x27 \<notin> set b" "CHR 0x5C \<notin> set b" by auto
    with False Cons.prems(2) show ?thesis by (intro exI [of _ "c # b"]) auto
  qed
qed simp

lemma scan_comment_type:
  "scan TOKEN_STATE_TOKEN_TYPE_COMMENT v cs = (tt, w, rest) \<Longrightarrow> tt \<noteq> TOKEN_TYPE_NORMAL"
  by (induction cs arbitrary: v) (auto split: if_splits)

lemma ParseToken_normal_wf:
  "ParseToken cs = (TOKEN_TYPE_NORMAL, w, rest) \<Longrightarrow> CHR 0x5C \<notin> set cs \<Longrightarrow> wf_token w"
proof (induction cs)
  case (Cons c cs)
  have bs: "CHR 0x5C \<notin> set cs" using Cons.prems(2) by simp
  consider (blank) "blank c" | (quote) "c = CHR 0x22 \<or> c = CHR 0x27"
    | (normal) "\<not> separator c" "c \<notin> {CHR ''#'', CHR 0x22, CHR 0x27, CHR 0x0D}"
    using Cons.prems(1) scan_comment_type [of "[c]" cs TOKEN_TYPE_NORMAL w rest]
    by (auto simp: ParseToken_def separator_def blank_def split: if_splits)
  then show ?case
  proof cases
    case blank
    with Cons bs show ?thesis by simp
  next
    case quote
    then show ?thesis
    proof
      assume c: "c = CHR 0x22"
      with Cons.prems(1) have "scan TOKEN_STATE_DOUBLE_QUOTE [c] cs = (TOKEN_TYPE_NORMAL, w, rest)"
        by (simp add: ParseToken_def)
      from scan_double_value [OF this bs] c show ?thesis
        by (auto simp: wf_token_def quoted_token_def butlast_append)
    next
      assume c: "c = CHR 0x27"
      with Cons.prems(1) have "scan TOKEN_STATE_SINGLE_QUOTE [c] cs = (TOKEN_TYPE_NORMAL, w, rest)"
        by (simp add: ParseToken_def)
      from scan_single_value [OF this bs] c show ?thesis
        by (auto simp: wf_token_def quoted_token_def butlast_append)
    qed
  next
    case normal
    with Cons.prems(1) have "scan TOKEN_STATE_TOKEN_TYPE_NORMAL [c] cs = (TOKEN_TYPE_NORMAL, w, rest)"
      by (auto simp: ParseToken_def separator_def)
    from scan_normal_value [OF this] normal show ?thesis
      by (auto simp: wf_token_def plain_token_def)
  qed
qed simp

text \<open>The unread rest is a suffix of the input.\<close>

lemma ParseToken_suffix: "ParseToken cs = (tt, w, rest) \<Longrightarrow> suffix rest cs \<and> tt \<noteq> TOKEN_TYPE_START"
  unfolding ParseToken_def by (rule scan_suffix)

end
