(* ===== verification/Config_Parser.thy ===== *)
theory Config_Parser
  imports Config_Lexer
begin

text \<open>
  The config tree, its printer and the parser loop (\<^verbatim>\<open>NginxConfigStatement\<close>,
  \<^verbatim>\<open>NginxConfig::ToString\<close> and \<^verbatim>\<open>NginxConfigParser::Parse\<close> in
  \<^verbatim>\<open>src/src/config_parser.cc\<close> and \<^verbatim>\<open>src/include/config_parser.h\<close>).

  The stack of pointers to open configs is a list of statement lists, the top first. The
  statement list of an inner config belongs to the last statement of the config below it;
  it is stored there when the config is popped (\<open>pop_config\<close>) or when the loop ends
  (\<open>unwind\<close>), which is what the shared pointer \<^verbatim>\<open>child_block_\<close> shows to the caller.
  \<^verbatim>\<open>top()\<close> and \<^verbatim>\<open>pop()\<close> on an empty stack, \<^verbatim>\<open>back()\<close> on an empty vector and
  \<^verbatim>\<open>tokens_[0]\<close> of an empty vector are undefined behaviour.
\<close>

section \<open>Config trees and printing\<close>

datatype NginxConfigStatement =
  Statement (tokens_of: "string list") (child_block: "NginxConfigStatement list option")

definition indent :: "nat \<Rightarrow> string" where
  "indent depth = concat (replicate depth ''  '')"

fun join_tokens :: "string list \<Rightarrow> string" where
  "join_tokens [] = []"
| "join_tokens [t] = t"
| "join_tokens (t # ts) = t @ '' '' @ join_tokens ts"

fun statement_ToString :: "nat \<Rightarrow> NginxConfigStatement \<Rightarrow> string" where
  "statement_ToString depth (Statement ts None) =
     indent depth @ join_tokens ts @ '';'' @ [CHR 0x0A]"
| "statement_ToString depth (Statement ts (Some ss)) =
     indent depth @ join_tokens ts @ '' {'' @ [CHR 0x0A] @
     concat (map (statement_ToString (depth + 1)) ss) @ indent depth @ ''}'' @ [CHR 0x0A]"

definition ToString :: "nat \<Rightarrow> NginxConfigStatement list \<Rightarrow> string" where
  "ToString depth ss = concat (map (statement_ToString depth) ss)"

section \<open>The parser\<close>

definition push_token :: "string \<Rightarrow> NginxConfigStatement list \<Rightarrow> NginxConfigStatement list result" where
  "push_token t ss =
     (if ss = [] then Inl Undefined_behaviour
      else Inr (butlast ss @ [Statement (tokens_of (last ss) @ [t]) (child_block (last ss))]))"

definition set_child ::
  "NginxConfigStatement list \<Rightarrow> NginxConfigStatement list \<Rightarrow> NginxConfigStatement list" where
  "set_child child ss =
     (if ss = [] then [] else butlast ss @ [Statement (tokens_of (last ss)) (Some child)])"

type_synonym config_stack = "NginxConfigStatement list list"

fun pop_config :: "config_stack \<Rightarrow> NginxConfigStatement list \<Rightarrow> config_stack \<times> NginxConfigStatement list" where
  "pop_config [] root = ([], root)"
| "pop_config [cur] root = ([], cur)"
| "pop_config (cur # parent # stk) root = (set_child cur parent # stk, root)"

fun unwind :: "config_stack \<Rightarrow> NginxConfigStatement list \<Rightarrow> NginxConfigStatement list" where
  "unwind [] root = root"
| "unwind [cur] root = cur"
| "unwind (cur # parent # stk) root = unwind (set_child cur parent # stk) root"

text \<open>
  The loop at a closing brace: it reads \<^verbatim>\<open>tokens_[0]\<close> of each statement and leaves only
  itself when a \<^verbatim>\<open>listen\<close> statement has the wrong length.
\<close>

fun listen_check :: "NginxConfigStatement list \<Rightarrow> unit result" where
  "listen_check [] = Inr ()"
| "listen_check (s # ss) =
     (if tokens_of s = [] then Inl Undefined_behaviour
      else if hd (tokens_of s) = ''listen'' \<and> length (tokens_of s) \<noteq> 2 then Inr ()
      else listen_check ss)"

function parse_loop ::
  "TokenType \<Rightarrow> config_stack \<Rightarrow> NginxConfigStatement list \<Rightarrow> string
     \<Rightarrow> (bool \<times> NginxConfigStatement list) result" where
  "parse_loop last_type stk root input =
    (case ParseToken input of (tt, token, rest) \<Rightarrow>
      if tt = TOKEN_TYPE_ERROR then Inr (False, unwind stk root)
      else if tt = TOKEN_TYPE_COMMENT then parse_loop last_type stk root rest
      else if tt = TOKEN_TYPE_START then Inr (False, unwind stk root)
      else if tt = TOKEN_TYPE_NORMAL then
        (if last_type \<in> {TOKEN_TYPE_START, TOKEN_TYPE_STATEMENT_END, TOKEN_TYPE_START_BLOCK,
             TOKEN_TYPE_END_BLOCK, TOKEN_TYPE_NORMAL}
         then
           (case stk of
              [] \<Rightarrow> Inl Undefined_behaviour
            | cur # stk' \<Rightarrow>
                ebind (push_token token
                   (if last_type \<noteq> TOKEN_TYPE_NORMAL then cur @ [Statement [] None] else cur))
                  (\<lambda>cur'. parse_loop tt (cur' # stk') root rest))
         else Inr (False, unwind stk root))
      else if tt = TOKEN_TYPE_STATEMENT_END then
        (if last_type \<noteq> TOKEN_TYPE_NORMAL then Inr (False, unwind stk root)
         else parse_loop tt stk root rest)
      else if tt = TOKEN_TYPE_START_BLOCK then
        (if last_type \<noteq> TOKEN_TYPE_NORMAL then Inr (False, unwind stk root)
         else
           (case stk of
              [] \<Rightarrow> Inl Undefined_behaviour
            | cur # stk' \<Rightarrow>
                if cur = [] then Inl Undefined_behaviour
                else parse_loop tt ([] # set_child [] cur # stk') root rest))
      else if tt = TOKEN_TYPE_END_BLOCK then
        (if last_type \<notin> {TOKEN_TYPE_START_BLOCK, TOKEN_TYPE_STATEMENT_END, TOKEN_TYPE_END_BLOCK}
         then Inr (False, unwind stk root)
         else
           (case stk of
              [] \<Rightarrow> Inl Undefined_behaviour
            | cur # stk' \<Rightarrow>
                ebind (listen_check cur) (\<lambda>_.
                  (case pop_config stk root of (stk2, root2) \<Rightarrow> parse_loop tt stk2 root2 rest))))
      else \<comment> \<open>end of file\<close>
        (if last_type \<notin> {TOKEN_TYPE_STATEMENT_END, TOKEN_TYPE_END_BLOCK, TOKEN_TYPE_START}
         then Inr (False, unwind stk root)
         else
           (case stk of
              [] \<Rightarrow> Inl Undefined_behaviour
            | cur # stk' \<Rightarrow> Inr (stk' = [], unwind stk root))))"
  by pat_completeness auto
termination
  by (relation "measure (\<lambda>(last_type, stk, root, input). length input)")
    (auto dest!: ParseToken_less [OF sym])

declare parse_loop.simps [simp del]

text \<open>\<^verbatim>\<open>Parse(std::istream*, NginxConfig*)\<close> on a config that has the statements \<open>ss0\<close>.\<close>

definition Parse :: "string \<Rightarrow> NginxConfigStatement list \<Rightarrow> (bool \<times> NginxConfigStatement list) result" where
  "Parse input ss0 = parse_loop TOKEN_TYPE_START [ss0] [] input"

text \<open>
  \<^verbatim>\<open>Parse(const char*, NginxConfig*)\<close>: the content of the file, \<open>None\<close> when it cannot be
  opened.
\<close>

definition Parse_file ::
  "string option \<Rightarrow> NginxConfigStatement list \<Rightarrow> (bool \<times> NginxConfigStatement list) result" where
  "Parse_file content ss0 =
     (case content of None \<Rightarrow> Inr (False, ss0) | Some input \<Rightarrow> Parse input ss0)"

section \<open>Parsing a printed statement\<close>

fun wf_statement :: "NginxConfigStatement \<Rightarrow> bool" where
  "wf_statement (Statement ts None) = (ts \<noteq> [] \<and> list_all wf_token ts)"
| "wf_statement (Statement ts (Some ss)) =
     (ts \<noteq> [] \<and> list_all wf_token ts \<and> list_all wf_statement ss)"

definition between :: "TokenType \<Rightarrow> bool" where
  "between tt \<longleftrightarrow> tt \<in> {TOKEN_TYPE_START, TOKEN_TYPE_STATEMENT_END, TOKEN_TYPE_START_BLOCK, TOKEN_TYPE_END_BLOCK}"

lemma set_child_simps [simp]:
  "set_child c (ss @ [Statement ts o1]) = ss @ [Statement ts (Some c)]"
  by (simp add: set_child_def)

lemma push_token_snoc [simp]:
  "push_token t (ss @ [Statement ts c]) = Inr (ss @ [Statement (ts @ [t]) c])"
  by (simp add: push_token_def)

lemma parse_loop_skip:
  "ParseToken (bs @ input) = ParseToken input \<Longrightarrow>
     parse_loop l stk root (bs @ input) = parse_loop l stk root input"
  by (simp add: parse_loop.simps [of l stk root "bs @ input"] parse_loop.simps [of l stk root input])

lemma blank_indent: "list_all blank (indent d)"
  by (induction d) (auto simp: indent_def blank_def)

lemma parse_loop_indent [simp]: "parse_loop l stk root (indent d @ input) = parse_loop l stk root input"
  by (rule parse_loop_skip) (rule ParseToken_blanks [OF blank_indent])

lemma parse_loop_blank:
  "blank b \<Longrightarrow> parse_loop l stk root (b # input) = parse_loop l stk root input"
  using parse_loop_skip [of "[b]"] by simp

lemma parse_loop_newline [simp]:
  "parse_loop l stk root (CHR 0x0A # input) = parse_loop l stk root input"
  "parse_loop l stk root (CHR '' '' # input) = parse_loop l stk root input"
  by (rule parse_loop_blank, simp add: blank_def)+

lemma parse_loop_token_first:
  assumes "wf_token t" and "separator s" and "between l"
  shows "parse_loop l (cur # stk) root (t @ s # rest) =
     parse_loop TOKEN_TYPE_NORMAL ((cur @ [Statement [t] None]) # stk) root (s # rest)"
proof -
  have "l \<noteq> TOKEN_TYPE_NORMAL" using assms(3) by (auto simp: between_def)
  with assms show ?thesis
    by (simp add: parse_loop.simps [of l] ParseToken_token between_def)
qed

lemma parse_loop_token_next:
  assumes "wf_token t" and "separator s"
  shows "parse_loop TOKEN_TYPE_NORMAL ((cur @ [Statement ts c]) # stk) root (t @ s # rest) =
     parse_loop TOKEN_TYPE_NORMAL ((cur @ [Statement (ts @ [t]) c]) # stk) root (s # rest)"
  using assms by (simp add: parse_loop.simps [of TOKEN_TYPE_NORMAL _ _ "t @ s # rest"] ParseToken_token)

lemma parse_loop_end:
  "parse_loop TOKEN_TYPE_NORMAL stk root (CHR '';'' # rest) = parse_loop TOKEN_TYPE_STATEMENT_END stk root rest"
  by (simp add: parse_loop.simps [of TOKEN_TYPE_NORMAL])

lemma parse_loop_open:
  "parse_loop TOKEN_TYPE_NORMAL ((cur @ [Statement ts c]) # stk) root (CHR ''{'' # rest) =
     parse_loop TOKEN_TYPE_START_BLOCK ([] # (cur @ [Statement ts (Some [])]) # stk) root rest"
  by (simp add: parse_loop.simps [of TOKEN_TYPE_NORMAL])

lemma parse_loop_close:
  assumes "l \<in> {TOKEN_TYPE_START_BLOCK, TOKEN_TYPE_STATEMENT_END, TOKEN_TYPE_END_BLOCK}"
    and "listen_check cur = Inr ()"
  shows "parse_loop l (cur # (par @ [Statement ts c]) # stk) root (CHR ''}'' # rest) =
     parse_loop TOKEN_TYPE_END_BLOCK ((par @ [Statement ts (Some cur)]) # stk) root rest"
  using assms by (simp add: parse_loop.simps [of l])

lemma separator_blank [simp]: "separator CHR '' ''" "separator CHR '';''"
  by (simp_all add: separator_def)

lemma parse_loop_tokens:
  "list_all wf_token ts \<Longrightarrow> ts \<noteq> [] \<Longrightarrow> separator s \<Longrightarrow>
     parse_loop TOKEN_TYPE_NORMAL ((cur @ [Statement us c]) # stk) root (join_tokens ts @ s # rest) =
     parse_loop TOKEN_TYPE_NORMAL ((cur @ [Statement (us @ ts) c]) # stk) root (s # rest)"
  by (induction ts arbitrary: us rule: join_tokens.induct) (simp_all add: parse_loop_token_next)

lemma parse_loop_statement_tokens:
  assumes "list_all wf_token ts" and "ts \<noteq> []" and "separator s" and "between l"
  shows "parse_loop l (cur # stk) root (join_tokens ts @ s # rest) =
     parse_loop TOKEN_TYPE_NORMAL ((cur @ [Statement ts None]) # stk) root (s # rest)"
  using assms
  by (cases ts rule: join_tokens.cases)
    (simp_all add: parse_loop_token_first parse_loop_tokens)

fun after :: "NginxConfigStatement \<Rightarrow> TokenType" where
  "after (Statement ts None) = TOKEN_TYPE_STATEMENT_END"
| "after (Statement ts (Some ss)) = TOKEN_TYPE_END_BLOCK"

fun after_all :: "TokenType \<Rightarrow> NginxConfigStatement list \<Rightarrow> TokenType" where
  "after_all l [] = l"
| "after_all l (s # ss) = after_all (after s) ss"

lemma between_after [simp]: "between (after s)"
  by (cases s rule: after.cases) (simp_all add: between_def)

lemma between_after_all: "between l \<Longrightarrow> between (after_all l ss)"
  by (induction ss arbitrary: l) simp_all

lemma after_all_block:
  "after_all TOKEN_TYPE_START_BLOCK ss \<in> {TOKEN_TYPE_START_BLOCK, TOKEN_TYPE_STATEMENT_END, TOKEN_TYPE_END_BLOCK}"
proof -
  have "l \<noteq> TOKEN_TYPE_START \<Longrightarrow> after_all l ss \<noteq> TOKEN_TYPE_START" for l
  proof (induction ss arbitrary: l)
    case (Cons s ss)
    have "after s \<noteq> TOKEN_TYPE_START" by (cases s rule: after.cases) simp_all
    with Cons show ?case by simp
  qed simp
  moreover have "between (after_all TOKEN_TYPE_START_BLOCK ss)"
    by (rule between_after_all) (simp add: between_def)
  ultimately show ?thesis by (auto simp: between_def)
qed

lemma wf_statement_tokens: "wf_statement s \<Longrightarrow> tokens_of s \<noteq> []"
  by (cases s rule: wf_statement.cases) simp_all

lemma listen_check_wf: "list_all (\<lambda>s. tokens_of s \<noteq> []) ss \<Longrightarrow> listen_check ss = Inr ()"
  by (induction ss) auto

lemma parse_loop_statement:
  "wf_statement s \<Longrightarrow> between l \<Longrightarrow>
     parse_loop l (cur # stk) root (statement_ToString d s @ rest) =
     parse_loop (after s) ((cur @ [s]) # stk) root rest"
proof (induction s arbitrary: l cur stk rest d rule: wf_statement.induct)
  case (1 ts)
  then show ?case
    by (simp add: parse_loop_statement_tokens parse_loop_end)
next
  case (2 ts ss)
  have inner: "parse_loop l' (cur' # stk') root (concat (map (statement_ToString d') ss) @ rest') =
      parse_loop (after_all l' ss) ((cur' @ ss) # stk') root rest'"
    if "between l'" for l' cur' stk' rest' d'
    using "2.prems"(1) "2.IH" that
  proof (induction ss arbitrary: l' cur')
    case (Cons s ss)
    then show ?case by simp
  qed simp
  have "listen_check ss = Inr ()"
    using "2.prems"(1) by (intro listen_check_wf) (auto simp: list_all_iff wf_statement_tokens)
  with "2.prems" show ?case
    by (simp add: parse_loop_statement_tokens parse_loop_open inner between_def
        parse_loop_close [OF after_all_block])
qed

lemma parse_loop_statements:
  "list_all wf_statement ss \<Longrightarrow> between l \<Longrightarrow>
     parse_loop l (cur # stk) root (ToString d ss @ rest) =
     parse_loop (after_all l ss) ((cur @ ss) # stk) root rest"
  by (induction ss arbitrary: l cur) (simp_all add: ToString_def parse_loop_statement)

lemma after_all_start:
  "after_all TOKEN_TYPE_START ss \<in> {TOKEN_TYPE_STATEMENT_END, TOKEN_TYPE_END_BLOCK, TOKEN_TYPE_START}"
proof -
  have "l \<noteq> TOKEN_TYPE_START_BLOCK \<Longrightarrow> after_all l ss \<noteq> TOKEN_TYPE_START_BLOCK" for l
  proof (induction ss arbitrary: l)
    case (Cons s ss)
    have "after s \<noteq> TOKEN_TYPE_START_BLOCK" by (cases s rule: after.cases) simp_all
    with Cons show ?case by simp
  qed simp
  moreover have "between (after_all TOKEN_TYPE_START ss)"
    by (rule between_after_all) (simp add: between_def)
  ultimately show ?thesis by (auto simp: between_def)
qed

lemma Parse_ToString_aux:
  assumes "list_all wf_statement ss"
  shows "Parse (ToString d ss) [] = Inr (True, ss)"
proof -
  have "Parse (ToString d ss) [] = parse_loop (after_all TOKEN_TYPE_START ss) [ss] [] []"
    using parse_loop_statements [OF assms, of TOKEN_TYPE_START "[]" "[]" "[]" d "[]"]
    by (simp add: Parse_def between_def)
  also have "\<dots> = Inr (True, ss)"
    using after_all_start [of ss] by (simp add: parse_loop.simps)
  finally show ?thesis .
qed


section \<open>What a parsed config consists of\<close>

fun stmt_ok :: "(string \<Rightarrow> bool) \<Rightarrow> NginxConfigStatement \<Rightarrow> bool" where
  "stmt_ok P (Statement ts None) = (ts \<noteq> [] \<and> list_all P ts)"
| "stmt_ok P (Statement ts (Some ss)) = (ts \<noteq> [] \<and> list_all P ts \<and> list_all (stmt_ok P) ss)"

lemma stmt_ok_wf_token: "stmt_ok wf_token = wf_statement"
proof
  fix s
  show "stmt_ok wf_token s = wf_statement s"
    by (induction s rule: wf_statement.induct) (auto simp: list_all_iff)
qed

lemma stmt_ok_tokens: "stmt_ok P s \<Longrightarrow> tokens_of s \<noteq> []"
  by (cases s rule: wf_statement.cases) simp_all

lemma stmt_ok_listen: "list_all (stmt_ok P) ss \<Longrightarrow> listen_check ss = Inr ()"
  by (rule listen_check_wf) (auto simp: list_all_iff stmt_ok_tokens)

text \<open>
  The invariant of the loop: every config on the stack is well formed, every config below
  the top has the statement that owns the next one, and after a normal token the top has the
  statement to which the token was added.
\<close>

definition stack_inv :: "(string \<Rightarrow> bool) \<Rightarrow> TokenType \<Rightarrow> config_stack \<Rightarrow> NginxConfigStatement list \<Rightarrow> bool" where
  "stack_inv P l stk root \<longleftrightarrow>
     list_all (list_all (stmt_ok P)) stk \<and> list_all (stmt_ok P) root \<and>
     list_all (\<lambda>ss. ss \<noteq> []) (tl stk) \<and> (l = TOKEN_TYPE_NORMAL \<longrightarrow> stk \<noteq> [] \<longrightarrow> hd stk \<noteq> [])"

lemma push_token_ok:
  assumes "push_token t (if new then cur @ [Statement [] None] else cur) = Inr cur'"
    and "list_all (stmt_ok P) cur" and "P t"
  shows "list_all (stmt_ok P) cur' \<and> cur' \<noteq> []"
proof (cases new)
  case True
  with assms show ?thesis by auto
next
  case False
  with assms(1) have "cur \<noteq> []" by (auto simp: push_token_def)
  then obtain ss ts c where "cur = ss @ [Statement ts c]"
    by (metis NginxConfigStatement.exhaust rev_exhaust)
  with False assms show ?thesis by (cases c) auto
qed

lemma set_child_ok:
  assumes "list_all (stmt_ok P) ss" and "list_all (stmt_ok P) child" and "ss \<noteq> []"
  shows "list_all (stmt_ok P) (set_child child ss) \<and> set_child child ss \<noteq> []"
proof -
  from assms(3) obtain ss' ts c where ss: "ss = ss' @ [Statement ts c]"
    by (metis NginxConfigStatement.exhaust rev_exhaust)
  with assms(1,2) show ?thesis by (cases c) auto
qed

lemma unwind_ok:
  "list_all (list_all (stmt_ok P)) stk \<Longrightarrow> list_all (\<lambda>ss. ss \<noteq> []) (tl stk) \<Longrightarrow>
     list_all (stmt_ok P) root \<Longrightarrow> list_all (stmt_ok P) (unwind stk root)"
  by (induction stk root rule: unwind.induct) (simp_all add: set_child_ok)

lemma stack_inv_unwind: "stack_inv P l stk root \<Longrightarrow> list_all (stmt_ok P) (unwind stk root)"
  by (simp add: stack_inv_def unwind_ok)

lemma stack_inv_push:
  assumes "stack_inv P l (cur # stk) root" and "P t"
    and "push_token t (if l \<noteq> TOKEN_TYPE_NORMAL then cur @ [Statement [] None] else cur) = Inr cur'"
  shows "stack_inv P TOKEN_TYPE_NORMAL (cur' # stk) root"
  using assms push_token_ok [OF assms(3), of P] by (simp add: stack_inv_def)

lemma stack_inv_open:
  assumes "stack_inv P TOKEN_TYPE_NORMAL (cur # stk) root"
  shows "stack_inv P TOKEN_TYPE_START_BLOCK ([] # set_child [] cur # stk) root"
  using assms set_child_ok [of P cur "[]"] by (simp add: stack_inv_def)

lemma stack_inv_close:
  assumes "stack_inv P l (cur # stk) root" and "pop_config (cur # stk) root = (stk2, root2)"
  shows "stack_inv P TOKEN_TYPE_END_BLOCK stk2 root2"
  using assms set_child_ok [of P "hd stk" cur]
  by (cases stk) (auto simp: stack_inv_def)

lemma stack_inv_type:
  "stack_inv P l stk root \<Longrightarrow> l' \<noteq> TOKEN_TYPE_NORMAL \<Longrightarrow> stack_inv P l' stk root"
  by (simp add: stack_inv_def)

definition tokens_satisfy :: "(string \<Rightarrow> bool) \<Rightarrow> string \<Rightarrow> bool" where
  "tokens_satisfy P input \<longleftrightarrow>
     (\<forall>cs w rest. suffix cs input \<and> ParseToken cs = (TOKEN_TYPE_NORMAL, w, rest) \<longrightarrow> P w)"

lemma tokens_satisfy_rest:
  assumes "tokens_satisfy P input" and "ParseToken input = (tt, w, rest)"
  shows "tokens_satisfy P rest"
  using assms ParseToken_suffix [OF assms(2)] suffix_order.order_trans
  unfolding tokens_satisfy_def by blast

text \<open>
  One turn of the loop: it ends with what is on the stack, or it finds the stack empty, or
  it goes on with the invariant, less input and the depth the token says.
\<close>

definition turn ::
  "(string \<Rightarrow> bool) \<Rightarrow> TokenType \<Rightarrow> config_stack \<Rightarrow> NginxConfigStatement list \<Rightarrow> string \<Rightarrow> TokenType \<Rightarrow> string \<Rightarrow> bool" where
  "turn P l stk root input tt rest \<longleftrightarrow>
     (\<exists>b. parse_loop l stk root input = Inr (b, unwind stk root)) \<or>
     stk = [] \<and> parse_loop l stk root input = Inl Undefined_behaviour \<or>
     (\<exists>l' stk' root'. parse_loop l stk root input = parse_loop l' stk' root' rest \<and>
        stack_inv P l' stk' root' \<and> tt \<noteq> TOKEN_TYPE_EOF \<and> tt \<noteq> TOKEN_TYPE_ERROR \<and>
        length stk' + of_bool (tt = TOKEN_TYPE_END_BLOCK) =
          length stk + of_bool (tt = TOKEN_TYPE_START_BLOCK))"

lemma turn_stop: "parse_loop l stk root input = Inr (b, unwind stk root) \<Longrightarrow> turn P l stk root input tt rest"
  by (auto simp: turn_def)

lemma turn_go:
  assumes "parse_loop l stk root input = parse_loop l' stk' root' rest" and "stack_inv P l' stk' root'"
    and "tt \<noteq> TOKEN_TYPE_EOF" and "tt \<noteq> TOKEN_TYPE_ERROR"
    and "length stk' + of_bool (tt = TOKEN_TYPE_END_BLOCK) = length stk + of_bool (tt = TOKEN_TYPE_START_BLOCK)"
  shows "turn P l stk root input tt rest"
  unfolding turn_def using assms by blast

lemma turn_normal:
  assumes inv: "stack_inv P l stk root" and lex: "ParseToken input = (TOKEN_TYPE_NORMAL, w, rest)" and "P w"
  shows "turn P l stk root input TOKEN_TYPE_NORMAL rest"
proof (cases stk)
  case Nil
  then show ?thesis by (auto simp: turn_def parse_loop.simps [of _ _ _ input] lex)
next
  case (Cons cur stk')
  from inv Cons have "l = TOKEN_TYPE_NORMAL \<Longrightarrow> cur \<noteq> []" by (simp add: stack_inv_def)
  then obtain cur' where cur':
    "push_token w (if l \<noteq> TOKEN_TYPE_NORMAL then cur @ [Statement [] None] else cur) = Inr cur'"
    by (cases "l = TOKEN_TYPE_NORMAL") (simp_all add: push_token_def)
  from inv [unfolded Cons] \<open>P w\<close> cur' have inv': "stack_inv P TOKEN_TYPE_NORMAL (cur' # stk') root"
    by (rule stack_inv_push)
  show ?thesis
  proof (cases "l \<in> {TOKEN_TYPE_START, TOKEN_TYPE_STATEMENT_END, TOKEN_TYPE_START_BLOCK,
         TOKEN_TYPE_END_BLOCK, TOKEN_TYPE_NORMAL}")
    case True
    then have "parse_loop l stk root input = parse_loop TOKEN_TYPE_NORMAL (cur' # stk') root rest"
      using Cons cur' by (simp add: parse_loop.simps [of _ _ _ input] lex)
    then show ?thesis using inv' Cons by (elim turn_go) simp_all
  next
    case False
    then show ?thesis by (intro turn_stop [of _ _ _ _ False]) (simp add: parse_loop.simps [of _ _ _ input] lex)
  qed
qed

lemma turn_open:
  assumes inv: "stack_inv P l stk root" and lex: "ParseToken input = (TOKEN_TYPE_START_BLOCK, w, rest)"
  shows "turn P l stk root input TOKEN_TYPE_START_BLOCK rest"
proof (cases "l = TOKEN_TYPE_NORMAL")
  case l: True
  show ?thesis
  proof (cases stk)
    case Nil
    with l show ?thesis by (simp add: turn_def parse_loop.simps [of _ _ _ input] lex)
  next
    case (Cons cur stk')
    have "cur \<noteq> []" using inv Cons l by (simp add: stack_inv_def)
    then have "parse_loop l stk root input =
        parse_loop TOKEN_TYPE_START_BLOCK ([] # set_child [] cur # stk') root rest"
      using Cons l by (simp add: parse_loop.simps [of _ _ _ input] lex)
    then show ?thesis
      using stack_inv_open [of P cur stk' root] inv Cons l by (elim turn_go) simp_all
  qed
next
  case False
  then show ?thesis by (intro turn_stop [of _ _ _ _ False]) (simp add: parse_loop.simps [of _ _ _ input] lex)
qed

lemma turn_close:
  assumes inv: "stack_inv P l stk root" and lex: "ParseToken input = (TOKEN_TYPE_END_BLOCK, w, rest)"
  shows "turn P l stk root input TOKEN_TYPE_END_BLOCK rest"
proof (cases "l \<in> {TOKEN_TYPE_START_BLOCK, TOKEN_TYPE_STATEMENT_END, TOKEN_TYPE_END_BLOCK} \<and> stk \<noteq> []")
  case True
  then obtain cur stk' where stk: "stk = cur # stk'" by (cases stk) auto
  obtain stk2 root2 where pop: "pop_config stk root = (stk2, root2)" by fastforce
  have "listen_check cur = Inr ()" using inv stk by (intro stmt_ok_listen [of P]) (simp add: stack_inv_def)
  then have "parse_loop l stk root input = parse_loop TOKEN_TYPE_END_BLOCK stk2 root2 rest"
    using True stk pop by (simp add: parse_loop.simps [of _ _ _ input] lex)
  moreover have "Suc (length stk2) = length stk"
    using pop stk by (cases stk') auto
  ultimately show ?thesis
    using stack_inv_close [OF inv [unfolded stk] pop [unfolded stk]] by (intro turn_go) simp_all
next
  case False
  then show ?thesis
    by (cases stk) (auto simp: turn_def parse_loop.simps [of _ _ _ input] lex)
qed

lemma parse_loop_turn:
  assumes inv: "stack_inv P l stk root" and tok: "tokens_satisfy P input"
    and lex: "ParseToken input = (tt, w, rest)"
  shows "turn P l stk root input tt rest"
proof (cases tt)
  case TOKEN_TYPE_COMMENT
  with lex inv show ?thesis
    by (intro turn_go [of _ _ _ _ l stk root]) (simp_all add: parse_loop.simps [of _ _ _ input])
next
  case TOKEN_TYPE_NORMAL
  with tok lex have "P w" by (auto simp: tokens_satisfy_def)
  with TOKEN_TYPE_NORMAL lex inv show ?thesis by (simp add: turn_normal)
next
  case TOKEN_TYPE_STATEMENT_END
  with lex inv show ?thesis
    using turn_go [of l stk root input TOKEN_TYPE_STATEMENT_END stk root rest P tt]
      turn_stop [of l stk root input False]
    by (cases "l = TOKEN_TYPE_NORMAL") (simp_all add: parse_loop.simps [of _ _ _ input] stack_inv_type)
next
  case TOKEN_TYPE_START
  with lex show ?thesis by (intro turn_stop [of _ _ _ _ False]) (simp add: parse_loop.simps [of _ _ _ input])
next
  case TOKEN_TYPE_ERROR
  with lex show ?thesis by (intro turn_stop [of _ _ _ _ False]) (simp add: parse_loop.simps [of _ _ _ input])
next
  case TOKEN_TYPE_EOF
  with lex show ?thesis
    by (cases stk) (auto simp: turn_def parse_loop.simps [of _ _ _ input])
qed (use lex inv in \<open>simp_all add: turn_open turn_close\<close>)

lemma turnE:
  assumes "stack_inv P l stk root" and "tokens_satisfy P input" and lex: "ParseToken input = (tt, w, rest)"
  obtains (stop) b where "parse_loop l stk root input = Inr (b, unwind stk root)"
  | (empty) "stk = []" and "parse_loop l stk root input = Inl Undefined_behaviour"
  | (go) l' stk' root' where "parse_loop l stk root input = parse_loop l' stk' root' rest"
      and "stack_inv P l' stk' root'" and "tokens_satisfy P rest" and "length rest < length input"
      and "tt \<noteq> TOKEN_TYPE_EOF" and "tt \<noteq> TOKEN_TYPE_ERROR"
      and "length stk' + of_bool (tt = TOKEN_TYPE_END_BLOCK) = length stk + of_bool (tt = TOKEN_TYPE_START_BLOCK)"
  using parse_loop_turn [OF assms] tokens_satisfy_rest [OF assms(2) lex] ParseToken_less [OF lex]
  unfolding turn_def by blast

lemma parse_loop_ok:
  "stack_inv P l stk root \<Longrightarrow> tokens_satisfy P input \<Longrightarrow> parse_loop l stk root input = Inr (b, ss) \<Longrightarrow>
     list_all (stmt_ok P) ss"
proof (induction "length input" arbitrary: l stk root input rule: less_induct)
  case less
  obtain tt w rest where lex: "ParseToken input = (tt, w, rest)" by (cases "ParseToken input")
  from less.prems(1,2) lex show ?case
  proof (cases rule: turnE)
    case (stop b')
    with less.prems(3) stack_inv_unwind [OF less.prems(1)] show ?thesis by simp
  next
    case empty
    with less.prems(3) show ?thesis by simp
  next
    case (go l' stk' root')
    with less.hyps less.prems(3) show ?thesis by metis
  qed
qed

lemma tokens_satisfy_True [simp]: "tokens_satisfy (\<lambda>_. True) input"
  by (simp add: tokens_satisfy_def)

lemma tokens_satisfy_wf: "CHR 0x5C \<notin> set input \<Longrightarrow> tokens_satisfy wf_token input"
  by (auto simp: tokens_satisfy_def dest!: set_mono_suffix intro: ParseToken_normal_wf)

lemma stack_inv_init: "stack_inv P TOKEN_TYPE_START [[]] []"
  by (simp add: stack_inv_def)

lemma Parse_stmt_ok:
  assumes "Parse input [] = Inr (b, ss)" and "tokens_satisfy P input"
  shows "list_all (stmt_ok P) ss"
  using assms(1) unfolding Parse_def by (rule parse_loop_ok [OF stack_inv_init assms(2)])


section \<open>Balanced braces\<close>

text \<open>No closing brace comes before its opening brace; \<open>n\<close> blocks are open.\<close>

function closes_ok :: "nat \<Rightarrow> string \<Rightarrow> bool" where
  "closes_ok n input =
    (case ParseToken input of (tt, token, rest) \<Rightarrow>
      if tt = TOKEN_TYPE_EOF \<or> tt = TOKEN_TYPE_ERROR then True
      else if tt = TOKEN_TYPE_START_BLOCK then closes_ok (Suc n) rest
      else if tt = TOKEN_TYPE_END_BLOCK then 0 < n \<and> closes_ok (n - 1) rest
      else closes_ok n rest)"
  by pat_completeness auto
termination
  by (relation "measure (\<lambda>(n, input). length input)") (auto dest!: ParseToken_less [OF sym])

declare closes_ok.simps [simp del]

lemma parse_loop_closes:
  "stack_inv P l stk root \<Longrightarrow> tokens_satisfy P input \<Longrightarrow> closes_ok n input \<Longrightarrow> length stk = Suc n \<Longrightarrow>
     \<exists>out. parse_loop l stk root input = Inr out"
proof (induction "length input" arbitrary: l stk root input n rule: less_induct)
  case less
  obtain tt w rest where lex: "ParseToken input = (tt, w, rest)" by (cases "ParseToken input")
  from less.prems(1,2) lex show ?case
  proof (cases rule: turnE)
    case (stop b)
    then show ?thesis by simp
  next
    case empty
    with less.prems(4) show ?thesis by simp
  next
    case (go l' stk' root')
    obtain m where "closes_ok m rest" and "length stk' = Suc m"
      using less.prems(3,4) go(5-7) lex
      by (auto simp: closes_ok.simps [of n input] of_bool_def split: if_splits)
    with less.hyps [OF go(4) go(2,3)] go(1) show ?thesis by simp
  qed
qed

lemma scan_normal_eof:
  "list_all (\<lambda>x. \<not> separator x) t \<Longrightarrow>
     scan TOKEN_STATE_TOKEN_TYPE_NORMAL v t = (TOKEN_TYPE_EOF, v @ t, [])"
  by (induction t arbitrary: v) (auto simp: separator_def)

lemma ParseToken_plain_eof: "plain_token t \<Longrightarrow> ParseToken t = (TOKEN_TYPE_EOF, t, [])"
  using scan_normal_eof
  by (cases t) (auto simp: plain_token_def ParseToken_def separator_def)

lemma Parse_prefix:
  assumes "list_all wf_statement ss"
  shows "Parse (ToString d ss @ rest) [] = parse_loop (after_all TOKEN_TYPE_START ss) [ss] [] rest"
  using parse_loop_statements [OF assms, of TOKEN_TYPE_START "[]" "[]" "[]" d rest]
  by (simp add: Parse_def between_def)

lemma after_all_nonempty:
  "ss \<noteq> [] \<Longrightarrow> after_all l ss \<in> {TOKEN_TYPE_STATEMENT_END, TOKEN_TYPE_END_BLOCK}"
proof (induction ss arbitrary: l)
  case (Cons s ss)
  show ?case
  proof (cases ss)
    case Nil
    then show ?thesis by (cases s rule: after.cases) simp_all
  next
    case (Cons s' ss')
    then have "ss \<noteq> []" by simp
    from Cons.IH [OF this] show ?thesis by simp
  qed
qed simp

section \<open>Properties\<close>

text \<open>
  C3. Printing a config tree and parsing the text gives the tree back, at any
  indentation, for every tree whose statements are non-empty lists of plain or quoted tokens.
\<close>

theorem Parse_ToString:
  assumes "list_all wf_statement ss"
  shows "Parse (ToString d ss) [] = Inr (True, ss)"
  using assms by (rule Parse_ToString_aux)

definition example_config :: "NginxConfigStatement list" where
  "example_config =
    [Statement [''listen'', ''80''] None,
     Statement [''location'', ''/api'', ''APIHandler''] (Some [Statement [''root'', ''../crud''] None]),
     Statement [''location'', ''/echo'', ''EchoHandler''] (Some [])]"

theorem Parse_ToString_witness:
  "Parse (ToString 0 example_config) [] = Inr (True, example_config)"
  by (rule Parse_ToString)
    (simp add: example_config_def wf_token_def plain_token_def separator_def)

text \<open>
  C38. An accepted config file without backslashes is normalised by printing: parsing the
  printed config gives the same config.
\<close>

theorem Parse_reparse:
  assumes "Parse input [] = Inr (True, ss)" and "CHR 0x5C \<notin> set input"
  shows "Parse (ToString d ss) [] = Inr (True, ss)"
proof -
  have "list_all (stmt_ok wf_token) ss"
    using assms(1) tokens_satisfy_wf [OF assms(2)] by (rule Parse_stmt_ok)
  then show ?thesis by (simp add: stmt_ok_wf_token Parse_ToString_aux)
qed

definition example_text :: string where
  "example_text = ''# x'' @ [CHR 0x0A] @ ''a '' @ [CHR 0x22] @ ''b c'' @ [CHR 0x22] @ '' {d;}''"

theorem Parse_reparse_witness:
  "\<exists>ss. Parse example_text [] = Inr (True, ss) \<and> Parse (ToString 3 ss) [] = Inr (True, ss)"
proof -
  have p: "Parse example_text [] = Inr (True,
      [Statement [''a'', [CHR 0x22] @ ''b c'' @ [CHR 0x22]] (Some [Statement [''d''] None])])"
    by code_simp
  have "CHR 0x5C \<notin> set example_text" by (simp add: example_text_def)
  from Parse_reparse [OF p this, of 3] p show ?thesis by blast
qed

text \<open>
  C39. As long as no closing brace lacks its opening brace, the parser returns: it never
  reads the top of an empty stack or the last element of an empty vector, whatever else is
  wrong with the file.
\<close>

theorem Parse_no_undefined_behaviour:
  assumes "closes_ok 0 input"
  shows "\<exists>out. Parse input [] = Inr out"
  unfolding Parse_def
  using stack_inv_init tokens_satisfy_True assms by (rule parse_loop_closes) simp

theorem Parse_no_undefined_behaviour_witness: "\<exists>out. Parse ''a {b;} c; ; {'' [] = Inr out"
  by (rule Parse_no_undefined_behaviour) code_simp

text \<open>
  A closing brace too many pops the root config: at the end of the file the parser
  pops the empty stack. The file is not rejected.
\<close>

theorem Parse_extra_brace:
  assumes "list_all wf_statement ss" and "ss \<noteq> []"
  shows "Parse (ToString d ss @ ''}'') [] = Inl Undefined_behaviour"
proof -
  have "listen_check ss = Inr ()"
    using assms(1) by (intro listen_check_wf) (auto simp: list_all_iff wf_statement_tokens)
  with after_all_nonempty [OF assms(2), of TOKEN_TYPE_START] show ?thesis
    by (simp add: Parse_prefix [OF assms(1)] parse_loop.simps [of _ _ _ "''}''"]
        parse_loop.simps [of _ _ _ "[]"])
qed

theorem Parse_extra_brace_witness: "Parse (ToString 0 example_config @ ''}'') [] = Inl Undefined_behaviour"
  by (rule Parse_extra_brace)
    (simp_all add: example_config_def wf_token_def plain_token_def separator_def)

text \<open>
  A last word that is not ended by a semicolon is dropped and the file is accepted as
  if the word were not there.
\<close>

theorem Parse_trailing_word:
  assumes "list_all wf_statement ss" and "plain_token t"
  shows "Parse (ToString d ss @ t) [] = Inr (True, ss)"
  using after_all_start [of ss] ParseToken_plain_eof [OF assms(2)]
  by (simp add: Parse_prefix [OF assms(1)] parse_loop.simps [of _ _ _ t])

theorem Parse_trailing_word_witness: "Parse (ToString 0 example_config @ ''listen'') [] = Inr (True, example_config)"
  by (rule Parse_trailing_word)
    (simp_all add: example_config_def wf_token_def plain_token_def separator_def)

end
