(* ===== verification/Config_Query.thy ===== *)
theory Config_Query
  imports Config_Parser
begin

text \<open>
  The queries on a parsed config (\<^verbatim>\<open>get_listen_port\<close>, \<^verbatim>\<open>get_root\<close>,
  \<^verbatim>\<open>get_auth_path_map\<close> and \<^verbatim>\<open>get_paths\<close> of \<^verbatim>\<open>NginxConfig\<close> in
  \<^verbatim>\<open>src/src/config_parser.cc\<close>, with \<^verbatim>\<open>struct path\<close> and the keywords of
  \<^verbatim>\<open>src/include/constants.h\<close>). An index past the tokens of a statement and the use of a
  missing child block are undefined behaviour.
\<close>

section \<open>Data\<close>

datatype endpoint_type =
    Ep_static | Ep_echo | Ep_api | Ep_health | Ep_sleep | Ep_profile | Ep_auth | Ep_console | Ep_invalid

record path =
  p_type :: endpoint_type
  p_endpoint :: string
  p_root :: string
  p_map :: "string \<rightharpoonup> string"

definition new_path :: path where
  "new_path = \<lparr>p_type = Ep_echo, p_endpoint = [], p_root = [], p_map = Map.empty\<rparr>"

record NginxConfig =
  statements :: "NginxConfigStatement list"
  paths :: "path list"

definition kUrlPathKeyword :: string where "kUrlPathKeyword = ''location''"
definition kResourcePathKeyword :: string where "kResourcePathKeyword = ''root''"
definition kStaticHandler :: string where "kStaticHandler = ''StaticHandler''"
definition kEchoHandler :: string where "kEchoHandler = ''EchoHandler''"
definition kAPIHandler :: string where "kAPIHandler = ''APIHandler''"
definition kHealthHandler :: string where "kHealthHandler = ''HealthHandler''"
definition kSleepHandler :: string where "kSleepHandler = ''SleepHandler''"
definition kAuthenticationHandler :: string where "kAuthenticationHandler = ''AuthenticationHandler''"

lemmas keyword_defs = kUrlPathKeyword_def kResourcePathKeyword_def kStaticHandler_def kEchoHandler_def
  kAPIHandler_def kHealthHandler_def kSleepHandler_def kAuthenticationHandler_def

text \<open>\<^verbatim>\<open>tokens_[i]\<close>\<close>

definition token_at :: "NginxConfigStatement \<Rightarrow> nat \<Rightarrow> string result" where
  "token_at s i = (if i < length (tokens_of s) then Inr (tokens_of s ! i) else Inl Undefined_behaviour)"

text \<open>\<^verbatim>\<open>child_block_->statements_\<close>\<close>

definition child_statements :: "NginxConfigStatement \<Rightarrow> NginxConfigStatement list result" where
  "child_statements s = (case child_block s of None \<Rightarrow> Inl Undefined_behaviour | Some ss \<Rightarrow> Inr ss)"

text \<open>\<^verbatim>\<open>m[k]\<close> on a \<^verbatim>\<open>std::map\<close>: a missing key is inserted with an empty value.\<close>

definition map_index :: "string \<Rightarrow> (string \<rightharpoonup> string) \<Rightarrow> string \<times> (string \<rightharpoonup> string)" where
  "map_index k m = (case m k of Some v \<Rightarrow> (v, m) | None \<Rightarrow> ([], m(k \<mapsto> [])))"

section \<open>The port\<close>

definition port_range :: "int \<Rightarrow> int result" where
  "port_range port = (if port < 1 \<or> port > 65535 then Inl Invalid_argument else Inr port)"

text \<open>The loop over the statements; \<open>port\<close> is the local variable of the source.\<close>

fun port_loop :: "NginxConfigStatement list \<Rightarrow> int \<Rightarrow> int result" where
  "port_loop [] port = Inr port"
| "port_loop (Statement ts (Some cb) # ss) port =
     ebind (ebind (port_loop cb (-1)) port_range) (\<lambda>p. port_loop ss p)"
| "port_loop (Statement ts None # ss) port =
     (if length ts = 2 \<and> hd ts = ''listen'' then stoi (ts ! 1) else port_loop ss port)"

definition get_listen_port :: "NginxConfigStatement list \<Rightarrow> int result" where
  "get_listen_port ss = ebind (port_loop ss (-1)) port_range"

section \<open>Lookups in the list of paths\<close>

fun root_loop :: "path list \<Rightarrow> string \<Rightarrow> string" where
  "root_loop [] location = []"
| "root_loop (p # ps) location =
     (if p_endpoint p \<noteq> location \<and> (p_type p \<noteq> Ep_static \<or> p_type p \<noteq> Ep_api)
      then root_loop ps location else p_root p)"

definition get_root :: "NginxConfig \<Rightarrow> string \<Rightarrow> string" where
  "get_root cfg location = root_loop (paths cfg) location"

fun auth_map_loop :: "path list \<Rightarrow> string \<Rightarrow> (string \<rightharpoonup> string)" where
  "auth_map_loop [] location = Map.empty"
| "auth_map_loop (p # ps) location =
     (if p_endpoint p \<noteq> location \<and> p_type p \<noteq> Ep_auth
      then auth_map_loop ps location else p_map p)"

definition get_auth_path_map :: "NginxConfig \<Rightarrow> string \<Rightarrow> (string \<rightharpoonup> string)" where
  "get_auth_path_map cfg location = auth_map_loop (paths cfg) location"

section \<open>Building the list of paths\<close>

text \<open>
  The branches for static files and for the API differ only in the type: for each child
  statement that starts with the resource keyword, type, endpoint and root are set.
\<close>

fun resource_loop :: "endpoint_type \<Rightarrow> string \<Rightarrow> NginxConfigStatement list \<Rightarrow> path \<Rightarrow> path result" where
  "resource_loop ty ep [] p = Inr p"
| "resource_loop ty ep (c # cs) p =
     ebind (token_at c 0) (\<lambda>t0.
       if t0 = kResourcePathKeyword then
         ebind (token_at c 1) (\<lambda>t1.
           resource_loop ty ep cs (p\<lparr>p_type := ty, p_endpoint := trim_slashes ep, p_root := t1\<rparr>))
       else resource_loop ty ep cs p)"

fun auth_loop :: "string \<Rightarrow> NginxConfigStatement list \<Rightarrow> path \<Rightarrow> path" where
  "auth_loop ep [] p = p"
| "auth_loop ep (c # cs) p =
     (if length (tokens_of c) = 2 then
        (case map_index ''root'' ((p_map p)(tokens_of c ! 0 \<mapsto> tokens_of c ! 1)) of (r, m) \<Rightarrow>
           auth_loop ep cs (p\<lparr>p_type := Ep_auth, p_endpoint := trim_slashes ep, p_map := m, p_root := r\<rparr>))
      else auth_loop ep cs p)"

fun console_loop :: "string \<Rightarrow> NginxConfigStatement list \<Rightarrow> path list \<Rightarrow> path list" where
  "console_loop ep [] ps = ps"
| "console_loop ep (c # cs) ps =
     (if length (tokens_of c) = 2 then
        (case map_index ''root'' ((p_map new_path)(tokens_of c ! 0 \<mapsto> tokens_of c ! 1)) of (r, m) \<Rightarrow>
           console_loop ep cs
             (ps @ [new_path\<lparr>p_type := Ep_console, p_endpoint := ep, p_map := m, p_root := r\<rparr>]))
      else console_loop ep cs ps)"

definition simple_path :: "endpoint_type \<Rightarrow> string \<Rightarrow> path" where
  "simple_path ty ep = new_path\<lparr>p_type := ty, p_endpoint := trim_slashes ep\<rparr>"

text \<open>The chain of tests on the handler name \<open>t2\<close>; \<open>t1\<close> is the endpoint as written.\<close>

definition handler_paths :: "string \<Rightarrow> string \<Rightarrow> NginxConfigStatement \<Rightarrow> path list \<Rightarrow> path list result" where
  "handler_paths t2 t1 s ps =
     (if t2 = kStaticHandler then
        ebind (child_statements s) (\<lambda>cs.
        ebind (resource_loop Ep_static t1 cs new_path) (\<lambda>p. Inr (ps @ [p])))
      else if t2 = kEchoHandler then Inr (ps @ [simple_path Ep_echo t1])
      else if t2 = kAPIHandler then
        ebind (child_statements s) (\<lambda>cs.
        ebind (resource_loop Ep_api t1 cs new_path) (\<lambda>p. Inr (ps @ [p])))
      else if t2 = kHealthHandler then Inr (ps @ [simple_path Ep_health t1])
      else if t2 = kSleepHandler then Inr (ps @ [simple_path Ep_sleep t1])
      else if t2 = kAuthenticationHandler then
        ebind (child_statements s) (\<lambda>cs.
          Inr (ps @ [auth_loop t1 cs (new_path\<lparr>p_type := Ep_auth\<rparr>)]))
      else if t2 = ''ApiConsoleHandler'' then
        ebind (child_statements s) (\<lambda>cs. Inr (console_loop t1 cs ps))
      else Inr ps)"

definition statement_paths :: "NginxConfigStatement \<Rightarrow> path list \<Rightarrow> path list result" where
  "statement_paths s ps =
    ebind (token_at s 0) (\<lambda>t0.
      if t0 \<noteq> kUrlPathKeyword then Inr ps
      else ebind (token_at s 2) (\<lambda>t2. ebind (token_at s 1) (\<lambda>t1. handler_paths t2 t1 s ps)))"

fun paths_loop :: "NginxConfigStatement list \<Rightarrow> path list \<Rightarrow> path list result" where
  "paths_loop [] ps = Inr ps"
| "paths_loop (s # ss) ps = ebind (statement_paths s ps) (paths_loop ss)"

text \<open>The result is also what the member \<^verbatim>\<open>paths\<close> holds afterwards.\<close>

definition get_paths :: "NginxConfig \<Rightarrow> NginxConfig result" where
  "get_paths cfg =
     ebind (paths_loop (statements cfg) (paths cfg)) (\<lambda>ps. Inr (cfg\<lparr>paths := ps\<rparr>))"


section \<open>Lemmas on the port\<close>

text \<open>The arguments of all \<^verbatim>\<open>listen\<close> statements of a config, blocks included.\<close>

fun listens :: "NginxConfigStatement list \<Rightarrow> string list" where
  "listens [] = []"
| "listens (Statement ts (Some cb) # ss) = listens cb @ listens ss"
| "listens (Statement ts None # ss) =
     (if length ts = 2 \<and> hd ts = ''listen'' then [ts ! 1] else []) @ listens ss"

lemma port_range_Inr: "port_range p = Inr q \<longleftrightarrow> q = p \<and> 1 \<le> p \<and> p \<le> 65535"
  by (auto simp: port_range_def)

lemma port_loop_source:
  "port_loop ss port = Inr p \<Longrightarrow> p = port \<or> (\<exists>t \<in> set (listens ss). stoi t = Inr p)"
proof (induction ss port arbitrary: p rule: port_loop.induct)
  case (2 ts cb ss port)
  from "2.prems" obtain q where q: "port_loop cb (-1) = Inr q" "port_range q = Inr q"
    and rest: "port_loop ss q = Inr p"
    by (auto simp: ebind_eq_Inr_iff port_range_Inr)
  then have "q \<noteq> -1" by (auto simp: port_range_Inr)
  with "2.IH"(1) [OF q(1)] have "\<exists>t \<in> set (listens cb). stoi t = Inr q" by simp
  with "2.IH"(2) [of q p] q rest show ?case by auto
qed (auto split: if_splits)

lemma port_loop_none: "listens ss = [] \<Longrightarrow> port_loop ss (-1) \<in> {Inr (-1), Inl Invalid_argument}"
proof (induction ss "-1 :: int" rule: port_loop.induct)
  case (2 ts cb ss)
  then have "port_loop cb (-1) \<in> {Inr (-1), Inl Invalid_argument}" by simp
  then show ?case by (auto simp: port_range_def)
qed (auto split: if_splits)

definition plain_statement :: "NginxConfigStatement \<Rightarrow> bool" where
  "plain_statement s \<longleftrightarrow> child_block s = None \<and> \<not> (length (tokens_of s) = 2 \<and> hd (tokens_of s) = ''listen'')"

lemma port_loop_plain: "list_all plain_statement pre \<Longrightarrow> port_loop (pre @ ss) port = port_loop ss port"
proof (induction pre)
  case (Cons s pre)
  then show ?case by (cases s) (auto simp: plain_statement_def)
qed simp

section \<open>Lemmas on the list of paths\<close>

lemma console_loop_append: "console_loop ep cs ps = ps @ console_loop ep cs []"
proof (induction cs arbitrary: ps)
  case (Cons c cs)
  show ?case
    by (cases "map_index ''root'' ((p_map new_path)(tokens_of c ! 0 \<mapsto> tokens_of c ! 1))")
      (simp add: Cons.IH [of "ps @ _"] Cons.IH [of "[_]"] Cons.IH [of ps])
qed simp

lemma handler_paths_append:
  "handler_paths t2 t1 s ps = ebind (handler_paths t2 t1 s []) (\<lambda>qs. Inr (ps @ qs))"
proof (cases "child_statements s")
  case (Inr cs)
  then show ?thesis
    by (cases "resource_loop Ep_static t1 cs new_path"; cases "resource_loop Ep_api t1 cs new_path")
      (simp_all add: handler_paths_def console_loop_append [of _ _ ps])
qed (simp add: handler_paths_def)

lemma statement_paths_append:
  "statement_paths s ps = ebind (statement_paths s []) (\<lambda>qs. Inr (ps @ qs))"
  by (cases "token_at s 0"; cases "token_at s 1"; cases "token_at s 2")
    (simp_all add: statement_paths_def handler_paths_append [of _ _ _ ps])

lemma paths_loop_append: "paths_loop ss ps = ebind (paths_loop ss []) (\<lambda>qs. Inr (ps @ qs))"
proof (induction ss arbitrary: ps)
  case (Cons s ss)
  show ?case
  proof (cases "statement_paths s []")
    case (Inr qs)
    then show ?thesis
      using statement_paths_append [of s ps] Cons.IH [of "ps @ qs"] Cons.IH [of qs]
      by (cases "paths_loop ss []") simp_all
  qed (simp add: statement_paths_append [of s ps])
qed simp

definition resource_child_ok :: "NginxConfigStatement \<Rightarrow> bool" where
  "resource_child_ok c \<longleftrightarrow>
     tokens_of c \<noteq> [] \<and> (hd (tokens_of c) = kResourcePathKeyword \<longrightarrow> 2 \<le> length (tokens_of c))"

text \<open>The statements that \<^verbatim>\<open>get_paths\<close> can read without leaving the bounds of a vector.\<close>

definition readable_statement :: "NginxConfigStatement \<Rightarrow> bool" where
  "readable_statement s \<longleftrightarrow>
     tokens_of s \<noteq> [] \<and>
     (hd (tokens_of s) = kUrlPathKeyword \<longrightarrow>
        3 \<le> length (tokens_of s) \<and>
        (tokens_of s ! 2 \<in> {kStaticHandler, kAPIHandler} \<longrightarrow>
           (\<exists>cs. child_block s = Some cs \<and> list_all resource_child_ok cs)) \<and>
        (tokens_of s ! 2 \<in> {kAuthenticationHandler, ''ApiConsoleHandler''} \<longrightarrow> child_block s \<noteq> None))"

lemma resource_loop_Inr: "(\<exists>q. resource_loop ty ep cs p = Inr q) \<longleftrightarrow> list_all resource_child_ok cs"
proof (induction cs arbitrary: p)
  case (Cons c cs)
  then show ?case
    by (cases "tokens_of c") (auto simp: token_at_def resource_child_ok_def ebind_eq_Inr_iff Suc_le_eq)
qed simp

lemma token_at_Inr: "token_at s i = Inr t \<longleftrightarrow> i < length (tokens_of s) \<and> t = tokens_of s ! i"
  by (auto simp: token_at_def)

lemma child_statements_Inr: "child_statements s = Inr cs \<longleftrightarrow> child_block s = Some cs"
  by (auto simp: child_statements_def split: option.splits)

definition block_names :: "string set" where
  "block_names = {kStaticHandler, kAPIHandler, kAuthenticationHandler, ''ApiConsoleHandler''}"

lemma handler_paths_Inr:
  "(\<exists>qs. handler_paths t2 t1 s ps = Inr qs) \<longleftrightarrow>
     (t2 \<in> {kStaticHandler, kAPIHandler} \<longrightarrow>
        (\<exists>cs. child_block s = Some cs \<and> list_all resource_child_ok cs)) \<and>
     (t2 \<in> {kAuthenticationHandler, ''ApiConsoleHandler''} \<longrightarrow> child_block s \<noteq> None)"
proof (cases "t2 \<in> block_names")
  case True
  have neq: "kAPIHandler \<notin> {kStaticHandler, kEchoHandler}"
    "kAuthenticationHandler \<notin> {kStaticHandler, kEchoHandler, kAPIHandler, kHealthHandler, kSleepHandler, ''ApiConsoleHandler''}"
    "''ApiConsoleHandler'' \<notin> {kStaticHandler, kEchoHandler, kAPIHandler, kHealthHandler, kSleepHandler}"
    "kStaticHandler \<noteq> ''ApiConsoleHandler''" "kAPIHandler \<noteq> ''ApiConsoleHandler''"
    by (simp_all add: keyword_defs)
  from True consider "t2 = kStaticHandler" | "t2 = kAPIHandler" | "t2 = kAuthenticationHandler"
    | "t2 = ''ApiConsoleHandler''" by (auto simp: block_names_def)
  then show ?thesis
    using neq resource_loop_Inr [of Ep_static t1 _ new_path] resource_loop_Inr [of Ep_api t1 _ new_path]
    by cases (cases "child_block s"; simp add: handler_paths_def child_statements_def ebind_eq_Inr_iff)+
next
  case False
  then show ?thesis by (simp add: handler_paths_def block_names_def)
qed

lemma statement_paths_Inr: "(\<exists>qs. statement_paths s ps = Inr qs) \<longleftrightarrow> readable_statement s"
proof (cases "tokens_of s")
  case Nil
  then show ?thesis by (simp add: statement_paths_def readable_statement_def token_at_def)
next
  case (Cons t ts)
  then have t0: "token_at s 0 = Inr t" by (simp add: token_at_def)
  show ?thesis
  proof (cases "t = kUrlPathKeyword \<and> 3 \<le> length (tokens_of s)")
    case False
    then show ?thesis
      using Cons by (auto simp: statement_paths_def t0 readable_statement_def token_at_def)
  next
    case True
    then have "token_at s 2 = Inr (tokens_of s ! 2)" "token_at s 1 = Inr (tokens_of s ! 1)"
      by (simp_all add: token_at_def)
    with True handler_paths_Inr [of "tokens_of s ! 2" "tokens_of s ! 1" s ps] Cons show ?thesis
      by (simp add: statement_paths_def t0 readable_statement_def)
  qed
qed

lemma paths_loop_Inr: "(\<exists>qs. paths_loop ss ps = Inr qs) \<longleftrightarrow> list_all readable_statement ss"
proof (induction ss arbitrary: ps)
  case (Cons s ss)
  then show ?case
    using statement_paths_Inr [of s ps] by (auto simp: ebind_eq_Inr_iff)
qed simp


lemma auth_loop_endpoint:
  "p_type p = Ep_auth \<Longrightarrow> trim_slashes (p_endpoint p) = p_endpoint p \<Longrightarrow>
     trim_slashes (p_endpoint (auth_loop ep cs p)) = p_endpoint (auth_loop ep cs p) \<and>
     p_type (auth_loop ep cs p) = Ep_auth"
  by (induction cs arbitrary: p) (auto split: prod.splits)

lemma resource_loop_endpoint:
  "resource_loop ty ep cs p = Inr q \<Longrightarrow> trim_slashes (p_endpoint p) = p_endpoint p \<Longrightarrow>
     trim_slashes (p_endpoint q) = p_endpoint q"
  by (induction cs arbitrary: p) (auto elim!: result_elims split: if_splits)

lemma console_loop_type:
  "list_all (\<lambda>p. p_type p = Ep_console) ps \<Longrightarrow> list_all (\<lambda>p. p_type p = Ep_console) (console_loop ep cs ps)"
  by (induction cs arbitrary: ps) (auto split: prod.splits)

definition trimmed :: "path \<Rightarrow> bool" where
  "trimmed p \<longleftrightarrow> p_type p = Ep_console \<or> trim_slashes (p_endpoint p) = p_endpoint p"

lemma new_path_trimmed [simp]: "trim_slashes (p_endpoint new_path) = p_endpoint new_path"
  by (simp add: new_path_def)

lemma handler_paths_trimmed:
  assumes "handler_paths t2 t1 s [] = Inr qs"
  shows "list_all trimmed qs"
proof -
  have res: "resource_loop ty t1 cs new_path = Inr q \<Longrightarrow> trimmed q" for ty cs q
    by (drule resource_loop_endpoint) (simp_all add: trimmed_def)
  have simple: "trimmed (simple_path ty t1)" for ty
    by (simp add: simple_path_def trimmed_def)
  have auth: "trimmed (auth_loop t1 cs (new_path\<lparr>p_type := Ep_auth\<rparr>))" for cs
    using auth_loop_endpoint [of "new_path\<lparr>p_type := Ep_auth\<rparr>" t1 cs] by (simp add: trimmed_def)
  have console: "list_all trimmed (console_loop t1 cs [])" for cs
    using console_loop_type [of "[]" t1 cs] by (auto simp: list_all_iff trimmed_def)
  show ?thesis
    using assms unfolding handler_paths_def
    by (auto simp: simple auth console res ebind_eq_Inr_iff split: if_split_asm)
qed

lemma statement_paths_trimmed: "statement_paths s [] = Inr qs \<Longrightarrow> list_all trimmed qs"
  by (auto simp: statement_paths_def ebind_eq_Inr_iff handler_paths_trimmed split: if_split_asm)

lemma paths_loop_trimmed: "paths_loop ss [] = Inr qs \<Longrightarrow> list_all trimmed qs"
proof (induction ss arbitrary: qs)
  case (Cons s ss)
  then obtain as where as: "statement_paths s [] = Inr as" "paths_loop ss as = Inr qs"
    by (auto simp: ebind_eq_Inr_iff)
  then obtain bs where "paths_loop ss [] = Inr bs" "qs = as @ bs"
    unfolding paths_loop_append [of ss as] by (auto elim: result_elims)
  with as Cons.IH statement_paths_trimmed show ?case by simp
qed simp

section \<open>Properties\<close>

text \<open>
  C40. The port that is returned lies between 1 and 65535 and is the number in some
  \<^verbatim>\<open>listen\<close> statement of the config.
\<close>

theorem get_listen_port_sound:
  assumes "get_listen_port ss = Inr p"
  shows "1 \<le> p \<and> p \<le> 65535 \<and> (\<exists>t \<in> set (listens ss). stoi t = Inr p)"
proof -
  from assms obtain q where q: "port_loop ss (-1) = Inr q" "port_range q = Inr p"
    by (auto simp: get_listen_port_def ebind_eq_Inr_iff)
  with port_loop_source [OF q(1)] show ?thesis by (auto simp: port_range_Inr)
qed

theorem get_listen_port_sound_witness:
  "get_listen_port example_config = Inr 80 \<and> (\<exists>t \<in> set (listens example_config). stoi t = Inr 80)"
proof -
  have p: "get_listen_port example_config = Inr 80" by code_simp
  from get_listen_port_sound [OF p] p show ?thesis by simp
qed

text \<open>
  When the first statement other than plain directives is \<^verbatim>\<open>listen\<close> with a port number
  in range, that number is the port, whatever follows.
\<close>

theorem get_listen_port_first:
  assumes "list_all plain_statement pre" and "1 \<le> p" and "p \<le> 65535"
  shows "get_listen_port (pre @ Statement [''listen'', to_string p] None # ss) = Inr p"
proof -
  have "in_int p" using assms by (simp add: in_int_code)
  with assms show ?thesis by (simp add: get_listen_port_def port_loop_plain port_range_def)
qed

theorem get_listen_port_first_witness:
  "get_listen_port ([Statement [''user'', ''www''] None] @ Statement [''listen'', to_string 8080] None # []) = Inr 8080"
  by (rule get_listen_port_first) (simp_all add: plain_statement_def)

text \<open>
  A block without a \<^verbatim>\<open>listen\<close> statement in front of the \<^verbatim>\<open>listen\<close> statement makes the
  search throw: the port is only found when it comes before every such block.
\<close>

theorem get_listen_port_block_first:
  assumes "listens cb = []"
  shows "get_listen_port (Statement ts (Some cb) # ss) = Inl Invalid_argument"
  using port_loop_none [OF assms] by (auto simp: get_listen_port_def port_range_def)

theorem get_listen_port_block_first_witness:
  "get_listen_port [Statement [''location'', ''/echo'', ''EchoHandler''] (Some []),
     Statement [''listen'', ''80''] None] = Inl Invalid_argument"
  by (rule get_listen_port_block_first) simp

text \<open>
  \<^verbatim>\<open>get_root\<close> returns the root of the first path whose endpoint is the location: its
  test of the endpoint type never matters.
\<close>

theorem get_root_first:
  "get_root cfg location =
     (case find (\<lambda>p. p_endpoint p = location) (paths cfg) of Some p \<Rightarrow> p_root p | None \<Rightarrow> [])"
proof -
  have "root_loop ps location =
      (case find (\<lambda>p. p_endpoint p = location) ps of Some p \<Rightarrow> p_root p | None \<Rightarrow> [])" for ps
    by (induction ps) auto
  then show ?thesis by (simp add: get_root_def)
qed

text \<open>
  \<^verbatim>\<open>get_auth_path_map\<close> ignores the location it is asked for as soon as an
  authentication path comes first: it returns the map of that path for every location that
  no earlier path has.
\<close>

theorem get_auth_path_map_shadow:
  assumes "paths cfg = pre @ a # post" and "p_type a = Ep_auth"
    and "list_all (\<lambda>p. p_endpoint p \<noteq> location \<and> p_type p \<noteq> Ep_auth) pre"
  shows "get_auth_path_map cfg location = p_map a"
proof -
  have "auth_map_loop (pre @ a # post) location = p_map a"
    using assms(2,3) by (induction pre) auto
  then show ?thesis by (simp add: get_auth_path_map_def assms(1))
qed

definition shadow_config :: NginxConfig where
  "shadow_config = \<lparr>statements = [], paths =
     [new_path\<lparr>p_type := Ep_auth, p_endpoint := ''/auth'', p_map := [''root'' \<mapsto> ''a'']\<rparr>,
      new_path\<lparr>p_type := Ep_console, p_endpoint := ''/console'', p_map := [''root'' \<mapsto> ''c'']\<rparr>]\<rparr>"

theorem get_auth_path_map_shadow_witness:
  "get_auth_path_map shadow_config ''/console'' ''root'' = Some ''a''"
  using get_auth_path_map_shadow [of shadow_config "[]"
      "new_path\<lparr>p_type := Ep_auth, p_endpoint := ''/auth'', p_map := [''root'' \<mapsto> ''a'']\<rparr>"
      "[new_path\<lparr>p_type := Ep_console, p_endpoint := ''/console'', p_map := [''root'' \<mapsto> ''c'']\<rparr>]"
      "''/console''"]
  by (simp add: shadow_config_def)

text \<open>
  \<^verbatim>\<open>get_paths\<close> stays within the bounds of its vectors exactly on the configs whose
  statements have the tokens and blocks it indexes; a \<^verbatim>\<open>location\<close> with fewer than three
  tokens or a missing block is undefined behaviour and not an error.
\<close>

theorem get_paths_defined_iff:
  "(\<exists>cfg'. get_paths cfg = Inr cfg') \<longleftrightarrow> list_all readable_statement (statements cfg)"
  using paths_loop_Inr [of "statements cfg" "paths cfg"]
  by (auto simp: get_paths_def ebind_eq_Inr_iff)

text \<open>
  \<^verbatim>\<open>get_paths\<close> only appends to the paths the config already has, and every endpoint it
  adds, other than those of console handlers, has no trailing slash left to remove.
\<close>

theorem get_paths_extends:
  assumes "get_paths cfg = Inr cfg'"
  shows "\<exists>new. paths cfg' = paths cfg @ new \<and> list_all trimmed new \<and> statements cfg' = statements cfg"
proof -
  from assms obtain qs where "paths_loop (statements cfg) (paths cfg) = Inr qs" "cfg' = cfg\<lparr>paths := qs\<rparr>"
    by (auto simp: get_paths_def ebind_eq_Inr_iff)
  moreover from this obtain new where "paths_loop (statements cfg) [] = Inr new" "qs = paths cfg @ new"
    by (auto simp: paths_loop_append [of _ "paths cfg"] ebind_eq_Inr_iff)
  ultimately show ?thesis using paths_loop_trimmed by auto
qed

theorem get_paths_extends_witness:
  "\<exists>cfg' new. get_paths \<lparr>statements = example_config, paths = []\<rparr> = Inr cfg' \<and>
     paths cfg' = new \<and> list_all trimmed new \<and> length new = 2"
proof -
  obtain cfg' where c: "get_paths \<lparr>statements = example_config, paths = []\<rparr> = Inr cfg'"
    and l: "length (paths cfg') = 2"
    by (simp add: get_paths_def example_config_def statement_paths_def token_at_def child_statements_def
        handler_paths_def keyword_defs)
  from get_paths_extends [OF c] c l show ?thesis by auto
qed

end
