(* ===== verification/Simple_Handlers.thy ===== *)
theory Simple_Handlers
  imports Http Reply Mime_Types Filesystem
begin

text \<open>
  The handlers without state of their own: static files, echo, health, sleep, 404, error and
  API console (\<^verbatim>\<open>src/src/request_static_handler.cc\<close>, \<^verbatim>\<open>request_echo_handler.cc\<close>,
  \<^verbatim>\<open>request_health_handler.cc\<close>, \<^verbatim>\<open>request_sleep_handler.cc\<close>, \<^verbatim>\<open>request_404_handler.cc\<close>,
  \<^verbatim>\<open>request_error_handler.cc\<close>, \<^verbatim>\<open>api_console_handler.cc\<close>). The serialisation of a request
  (\<^verbatim>\<open>operator<<\<close> of Boost.Beast), which the echo handler writes, is a parameter. The state of
  the sleep handler is the time that has passed, in microseconds.
\<close>

section \<open>Shared blocks\<close>

text \<open>The line \<^verbatim>\<open>log_message_info\<close> writes; \<open>name\<close> is the handler's name in it.\<close>

definition metrics_line :: "string \<Rightarrow> string \<Rightarrow> string \<Rightarrow> string" where
  "metrics_line code url name =
     ''[MetricsForResponse] Code for response: '' @ code @ '' URL for request: '' @ url @
     '' Corresponding handler: '' @ name"

definition stock_page :: "status \<Rightarrow> response \<Rightarrow> response" where
  "stock_page st res = finish st (stock_reply (int (result_int st))) ''text/html'' res"

lemma stock_page_simps [simp]:
  "res_result (stock_page st res) = st" "framed (stock_page st res)"
  by (simp_all add: stock_page_def)

section \<open>Static files\<close>

record static_handler =
  static_location :: string
  static_root :: string
  static_url :: string

definition new_static_handler :: "string \<Rightarrow> string \<Rightarrow> string \<Rightarrow> static_handler" where
  [simp]: "new_static_handler location root url =
     \<lparr>static_location = location, static_root = root, static_url = url\<rparr>"

text \<open>The file name below the root and its extension; the member \<^verbatim>\<open>extension\<close> starts empty.\<close>

definition static_file_name :: "static_handler \<Rightarrow> string \<Rightarrow> string result" where
  "static_file_name h target = substr (trim_slashes target) (length (static_location h)) None"

definition file_extension :: "string \<Rightarrow> string" where
  "file_extension file_name =
     (case rfind_char CHR ''.'' file_name of None \<Rightarrow> [] | Some i \<Rightarrow> drop (Suc i) file_name)"

definition static_handle_request ::
  "'w fs_ops \<Rightarrow> static_handler \<Rightarrow> 'w \<Rightarrow> request \<Rightarrow> response \<Rightarrow> 'w outcome result" where
  "static_handle_request fs h w req res =
     ebind (static_file_name h (req_target req)) (\<lambda>file_name.
       let full_path = static_root h @ ''/'' @ file_name;
           not_found = outcome_of w (stock_page Status_not_found res)
             [metrics_line ''404'' (static_url h) ''static handler'']
       in ebind (fs_exists fs w full_path) (\<lambda>ex.
          if \<not> ex then Inr not_found
          else ebind (fs_is_regular_file fs w full_path) (\<lambda>regular.
          if \<not> regular then Inr not_found
          else case fs_read fs w full_path of
            None \<Rightarrow> Inr not_found
          | Some reply_body \<Rightarrow>
              Inr (outcome_of w
                (finish Status_ok reply_body (extension_to_type (file_extension file_name)) res)
                [metrics_line ''200'' (static_url h) ''static handler'']))))"

section \<open>Echo and health\<close>

record location_handler =
  lh_location :: string
  lh_url :: string

definition new_echo_handler :: "string \<Rightarrow> string \<Rightarrow> location_handler" where
  [simp]: "new_echo_handler location url = \<lparr>lh_location = location, lh_url = url\<rparr>"

definition new_health_handler :: "string \<Rightarrow> string \<Rightarrow> location_handler" where
  [simp]: "new_health_handler location request_url = \<lparr>lh_location = location, lh_url = request_url\<rparr>"

definition echo_handle_request ::
  "(request \<Rightarrow> string) \<Rightarrow> location_handler \<Rightarrow> 's \<Rightarrow> request \<Rightarrow> response \<Rightarrow> 's outcome result" where
  "echo_handle_request serialize h s req res =
     (let req_input = trim_slashes (req_target req) in
      if lh_location h \<noteq> req_input then
        Inr (outcome_of s (stock_page Status_not_found res)
          [metrics_line ''404'' (lh_url h) ''echo handler''])
      else
        Inr (outcome_of s (finish Status_ok (serialize req) ''text/plain'' res)
          [metrics_line ''200'' (lh_url h) ''echo handler'']))"

definition health_handle_request ::
  "location_handler \<Rightarrow> 's \<Rightarrow> request \<Rightarrow> response \<Rightarrow> 's outcome result" where
  "health_handle_request h s req res =
     (let req_input = trim_slashes (req_target req) in
      if lh_location h \<noteq> req_input then
        Inr (outcome_of s (stock_page Status_not_found res)
          [metrics_line ''404'' (lh_url h) ''health handler''])
      else
        Inr (outcome_of s (finish Status_ok ''OK'' ''text/plain'' res)
          [metrics_line ''200'' (lh_url h) ''health handler'']))"

section \<open>Sleep, 404, error\<close>

definition new_sleep_handler :: "string \<Rightarrow> string \<Rightarrow> location_handler" where
  [simp]: "new_sleep_handler location request_url = \<lparr>lh_location = location, lh_url = request_url\<rparr>"

definition new_not_found_handler :: "string \<Rightarrow> string \<Rightarrow> location_handler" where
  [simp]: "new_not_found_handler location request_url = \<lparr>lh_location = location, lh_url = request_url\<rparr>"

definition sleep_handle_request ::
  "location_handler \<Rightarrow> nat \<Rightarrow> request \<Rightarrow> response \<Rightarrow> nat outcome result" where
  "sleep_handle_request h clock req res =
     Inr (outcome_of (clock + 2000000)
       (finish Status_ok (''This request slept: '' @ to_string 200000 @ '' microseconds'') ''text/plain'' res)
       [metrics_line ''200'' (lh_url h) ''sleep handler''])"

definition not_found_handle_request ::
  "location_handler \<Rightarrow> 's \<Rightarrow> request \<Rightarrow> response \<Rightarrow> 's outcome result" where
  "not_found_handle_request h s req res =
     Inr (outcome_of s (stock_page Status_not_found res)
       [metrics_line ''200'' (lh_url h) ''404 handler''])"

definition error_handle_request ::
  "status \<Rightarrow> 's \<Rightarrow> request \<Rightarrow> response \<Rightarrow> 's outcome result" where
  "error_handle_request err_code s req res = Inr (outcome_of s (stock_page err_code res) [])"

section \<open>The console\<close>

record console_handler =
  con_location :: string
  con_url :: string
  con_root :: string
  con_profile :: user_profile

definition new_console_handler :: "string \<Rightarrow> string \<Rightarrow> string \<Rightarrow> user_profile \<Rightarrow> console_handler" where
  [simp]: "new_console_handler location request_url root profile =
     \<lparr>con_location = location, con_url = request_url, con_root = root, con_profile = profile\<rparr>"

definition console_handle_request ::
  "'w fs_ops \<Rightarrow> console_handler \<Rightarrow> 'w \<Rightarrow> request \<Rightarrow> response \<Rightarrow> 'w outcome result" where
  "console_handle_request fs h w req res =
     (if \<not> login_status (con_profile h) then
        Inr (outcome_of w (stock_page Status_unauthorized res) [])
      else
        ebind (read_page fs w (con_root h @ ''/console.html'')) (\<lambda>page.
          Inr (outcome_of w (finish Status_ok page ''text/html'' res) [])))"

section \<open>The contract\<close>

interpretation static: request_handler "static_handle_request fs h" for fs h
  by unfold_locales
    (auto simp: static_handle_request_def Let_def elim!: result_elims split: if_splits option.splits)

interpretation echo: request_handler "echo_handle_request ser h" for ser h
  by unfold_locales (auto simp: echo_handle_request_def Let_def split: if_splits)

interpretation health: request_handler "health_handle_request h" for h
  by unfold_locales (auto simp: health_handle_request_def Let_def split: if_splits)

interpretation sleep: request_handler "sleep_handle_request h" for h
  by unfold_locales (auto simp: sleep_handle_request_def)

interpretation not_found: request_handler "not_found_handle_request h" for h
  by unfold_locales (auto simp: not_found_handle_request_def)

interpretation error: request_handler "error_handle_request st" for st
  by unfold_locales (auto simp: error_handle_request_def)

interpretation console: request_handler "console_handle_request fs h" for fs h
  by unfold_locales (auto simp: console_handle_request_def elim!: result_elims split: if_splits)

lemma static_result:
  assumes "trim_slashes (req_target req) = static_location h @ rest"
    and "fs_exists fs w (static_root h @ ''/'' @ rest) = Inr ex"
    and "fs_is_regular_file fs w (static_root h @ ''/'' @ rest) = Inr regular"
  shows "\<exists>out. static_handle_request fs h w req new_response = Inr out \<and> out_state out = w \<and>
     (case (if ex \<and> regular then fs_read fs w (static_root h @ ''/'' @ rest) else None) of
        Some c \<Rightarrow> out_status out = Status_ok \<and> res_body (out_res out) = c \<and>
          res_content_type (out_res out) = Some (extension_to_type (file_extension rest))
      | None \<Rightarrow> out_status out = Status_not_found)"
  using assms
  by (auto simp: static_handle_request_def static_file_name_def Let_def split: option.split)

section \<open>Properties\<close>


text \<open>
  The echo handler answers the request itself when the target, without trailing
  slashes, is its location, and 404 otherwise; the health handler answers \<open>OK\<close> under
  the same condition.
\<close>

theorem echo_health_answers:
  "\<exists>e h'. echo_handle_request serialize h s req new_response = Inr e \<and>
     health_handle_request h s req new_response = Inr h' \<and>
     (if trim_slashes (req_target req) = lh_location h
      then out_status e = Status_ok \<and> res_body (out_res e) = serialize req \<and>
        out_status h' = Status_ok \<and> res_body (out_res h') = ''OK''
      else out_status e = Status_not_found \<and> out_status h' = Status_not_found)"
  by (simp add: echo_handle_request_def health_handle_request_def Let_def)

text \<open>
  The sleep handler answers that it slept for 200000 microseconds, but ten times
  that has passed.
\<close>

theorem sleep_duration:
  "\<exists>out. sleep_handle_request h clock req new_response = Inr out \<and>
     res_body (out_res out) = ''This request slept: 200000 microseconds'' \<and>
     out_state out = clock + 10 * 200000"
proof -
  have "to_string 200000 = ''200000''" by (simp add: to_string_def nat_to_string.simps digit_char_simps)
  then show ?thesis by (simp add: sleep_handle_request_def)
qed

text \<open>
  The console page is served to logged-in users only; everyone else gets 401 with
  the stock page and nothing of the file.
\<close>

theorem console_requires_login:
  assumes "console_handle_request fs h w req new_response = Inr out"
  shows "if login_status (con_profile h)
     then out_status out = Status_ok \<and>
       read_page fs w (con_root h @ ''/console.html'') = Inr (res_body (out_res out))
     else out_status out = Status_unauthorized \<and> res_body (out_res out) = stock_reply 401"
  using assms
  by (auto simp: console_handle_request_def stock_page_def elim!: result_elims split: if_splits)


end
