(* ===== verification/Auth_Handler.thy ===== *)
theory Auth_Handler
  imports Profile_Manager Reply
begin

text \<open>
  The authentication handler (\<^verbatim>\<open>src/src/request_authentication_handler.cc\<close>): login and
  signup pages, their submissions, logout and the verification mail. The mail session
  (\<^verbatim>\<open>Poco::Net::SMTPClientSession\<close>) is a parameter, the record \<open>smtp_ops\<close>; each of its
  calls may throw. Only \<^verbatim>\<open>sendMessage\<close> stands in a try block.
\<close>

section \<open>State\<close>

record 'm smtp_ops =
  smtp_open :: "'m \<Rightarrow> 'm result" \<comment> \<open>constructor and login\<close>
  smtp_send :: "'m \<Rightarrow> string \<Rightarrow> string \<Rightarrow> 'm result" \<comment> \<open>recipient and content\<close>
  smtp_close :: "'m \<Rightarrow> 'm result"

record ('w, 'm) auth_state =
  auth_world :: 'w
  auth_mail :: 'm

record auth_handler =
  auth_location :: string
  auth_url :: string
  auth_root :: string
  auth_data_path :: string
  auth_signup :: string
  auth_login :: string
  auth_logout :: string
  auth_profile :: user_profile

definition new_auth_handler ::
  "string \<Rightarrow> string \<Rightarrow> string \<Rightarrow> string \<Rightarrow> string \<Rightarrow> string \<Rightarrow> string \<Rightarrow> user_profile \<Rightarrow> auth_handler" where
  [simp]: "new_auth_handler location request_url root path signup_path login_path logout_path profile =
     \<lparr>auth_location = location, auth_url = request_url, auth_root = root, auth_data_path = path,
      auth_signup = signup_path, auth_login = login_path, auth_logout = logout_path, auth_profile = profile\<rparr>"

definition auth_get_profile :: "auth_handler \<Rightarrow> user_profile" where
  "auth_get_profile h = auth_profile h"

definition auth_log :: "auth_handler \<Rightarrow> string \<Rightarrow> string" where
  "auth_log h code =
     ''[ResponseMetrics] response_code: '' @ code @ '' request_path: '' @ auth_url h @
     '' matched_handler: authentication handler''"

section \<open>The branches\<close>

definition serve_page ::
  "'w fs_ops \<Rightarrow> auth_handler \<Rightarrow> string \<Rightarrow> ('w, 'm) auth_state \<Rightarrow> response
     \<Rightarrow> ('w, 'm) auth_state outcome result" where
  "serve_page fs h page s res =
     ebind (read_page fs (auth_world s) (auth_root h @ ''/'' @ page)) (\<lambda>content.
       Inr (outcome_of s (finish Status_ok content ''text/html'' res) []))"

definition login_submit ::
  "'w fs_ops \<Rightarrow> (string \<Rightarrow> nat list) \<Rightarrow> auth_handler \<Rightarrow> ('w, 'm) auth_state \<Rightarrow> request \<Rightarrow> response
     \<Rightarrow> ('w, 'm) auth_state outcome result" where
  "login_submit fs sha256 h s req res =
     ebind (update_cookie fs sha256 (auth_data_path h @ ''/'') (auth_world s) (req_body req)) (\<lambda>new_cookie.
       if new_cookie \<noteq> [] then
         Inr (outcome_of s
           (set_result Status_ok (set_cookie_field (''crazyCode='' @ new_cookie @ ''; Path=/'') res)) [])
       else Inr (outcome_of s (set_content_length (set_result Status_bad_request res)) []))"

definition logout_branch :: "('w, 'm) auth_state \<Rightarrow> response \<Rightarrow> ('w, 'm) auth_state outcome" where
  "logout_branch s res =
     outcome_of s (set_result Status_ok (set_cookie_field ''crazyCode=; Path=/; Max-Age=0'' res)) []"

definition bad_request_page :: "response \<Rightarrow> response" where
  "bad_request_page res =
     finish Status_bad_request (stock_reply (int (result_int Status_bad_request))) ''text/html'' res"

definition signup_submit ::
  "'w fs_ops \<Rightarrow> (string \<Rightarrow> nat list) \<Rightarrow> auth_handler \<Rightarrow> ('w, 'm) auth_state \<Rightarrow> request \<Rightarrow> response
     \<Rightarrow> ('w, 'm) auth_state outcome result" where
  "signup_submit fs sha256 h s req res =
     ebind (signup_string fs sha256 (auth_data_path h @ ''/'') (auth_world s) (req_body req)) (\<lambda>(w, ok).
       let s1 = s\<lparr>auth_world := w\<rparr> in
       if \<not> ok then Inr (outcome_of s1 (bad_request_page res) [])
       else Inr (outcome_of s1 (set_result Status_ok (set_content_length (write_body ''OK'' res))) []))"

definition mail_content :: "string \<Rightarrow> string \<Rightarrow> string" where
  "mail_content name code =
     ''Hello '' @ name @ '','' @ [CHR 0x0A, CHR 0x0A] @
     ''Please enter the following verification code in the Crazy Code website:'' @
     [CHR 0x0A, CHR 0x0A] @ code"

text \<open>The mail is sent unless the address is taken; a failure to send is answered with 400.\<close>

definition deliver ::
  "'m smtp_ops \<Rightarrow> 'm \<Rightarrow> bool \<Rightarrow> string \<Rightarrow> string \<Rightarrow> string \<Rightarrow> response \<Rightarrow> 'm \<times> response" where
  "deliver smtp m used eml name code res =
     (if used then (m, bad_request_page res)
      else case smtp_send smtp m eml (mail_content name code) of
        Inr m' \<Rightarrow> (m', set_result Status_ok res)
      | Inl _ \<Rightarrow> (m, set_result Status_bad_request res))"

definition send_verification ::
  "'w fs_ops \<Rightarrow> 'm smtp_ops \<Rightarrow> auth_handler \<Rightarrow> ('w, 'm) auth_state \<Rightarrow> request \<Rightarrow> response
     \<Rightarrow> ('w, 'm) auth_state outcome result" where
  "send_verification fs smtp h s req res =
     ebind (smtp_open smtp (auth_mail s)) (\<lambda>m.
       let data = req_body req; s1 = s\<lparr>auth_mail := m\<rparr>;
           early = Inr (outcome_of s1 (set_result Status_bad_request res) [])
       in case find_char CHR ''|'' data of
         None \<Rightarrow> early
       | Some email_end \<Rightarrow>
           (case find_char_from CHR ''|'' data (email_end + 1) of
              None \<Rightarrow> early
            | Some username_end \<Rightarrow>
                let code_end = find_char_from CHR ''|'' data (username_end + 1) in
                ebind (substr data 0 (Some email_end)) (\<lambda>eml.
                ebind (substr data (email_end + 1) (Some (username_end - email_end - 1))) (\<lambda>name.
                ebind (substr data (username_end + 1) (pos_count code_end username_end)) (\<lambda>code.
                ebind (email_exists fs (auth_data_path h @ ''/'') (auth_world s) eml) (\<lambda>used.
                let (m1, res1) = deliver smtp m used eml name code res
                in ebind (smtp_close smtp m1) (\<lambda>m2.
                  Inr (outcome_of (s\<lparr>auth_mail := m2\<rparr>) res1 []))))))))"

definition auth_not_found :: "auth_handler \<Rightarrow> ('w, 'm) auth_state \<Rightarrow> response \<Rightarrow> ('w, 'm) auth_state outcome" where
  "auth_not_found h s res = outcome_of s
     (finish Status_not_found (stock_reply (int (result_int Status_not_found))) ''text/html'' res)
     [auth_log h ''404'']"

definition auth_handle_request ::
  "'w fs_ops \<Rightarrow> (string \<Rightarrow> nat list) \<Rightarrow> 'm smtp_ops \<Rightarrow> auth_handler \<Rightarrow> ('w, 'm) auth_state \<Rightarrow> request
     \<Rightarrow> response \<Rightarrow> ('w, 'm) auth_state outcome result" where
  "auth_handle_request fs sha256 smtp h s req res =
     (let input = req_target req; loc = auth_location h in
      if loc @ auth_login h = input then serve_page fs h ''login.html'' s res
      else if loc @ auth_login h @ ''-submit'' = input then login_submit fs sha256 h s req res
      else if loc @ auth_logout h = input then Inr (logout_branch s res)
      else if loc @ auth_signup h = input then serve_page fs h ''signup.html'' s res
      else if loc @ auth_signup h @ ''-submit'' = input then signup_submit fs sha256 h s req res
      else if loc @ auth_signup h @ ''-send-verification'' = input then send_verification fs smtp h s req res
      else Inr (auth_not_found h s res))"

section \<open>The contract\<close>

text \<open>Status and framing of what the branches answer.\<close>

definition answer_ok :: "response \<Rightarrow> 's outcome \<Rightarrow> bool" where
  "answer_ok res out \<longleftrightarrow> out_status out = res_result (out_res out) \<and> (framed res \<longrightarrow> framed (out_res out))"

lemma answer_ok_outcome_of [simp]: "answer_ok res (outcome_of s r lg) \<longleftrightarrow> (framed res \<longrightarrow> framed r)"
  by (simp add: answer_ok_def)

lemma login_submit_answer: "login_submit fs sha256 h s req res = Inr out \<Longrightarrow> answer_ok res out"
  by (auto simp: login_submit_def ebind_eq_Inr_iff split: if_splits)

lemma signup_submit_answer: "signup_submit fs sha256 h s req res = Inr out \<Longrightarrow> answer_ok res out"
  by (auto simp: signup_submit_def ebind_eq_Inr_iff Let_def bad_request_page_def split: if_splits)

lemma deliver_framed: "framed res \<Longrightarrow> framed (snd (deliver smtp m used e n c res))"
  by (simp add: deliver_def bad_request_page_def split: sum.split)

lemma send_verification_answer:
  assumes "send_verification fs smtp h s req res = Inr out"
  shows "answer_ok res out"
proof (cases "find_char CHR ''|'' (req_body req)")
  case None
  with assms show ?thesis by (auto simp: send_verification_def ebind_eq_Inr_iff Let_def)
next
  case (Some i)
  with assms show ?thesis
    by (cases "find_char_from CHR ''|'' (req_body req) (i + 1)")
      (auto simp: send_verification_def ebind_eq_Inr_iff Let_def case_prod_beta deliver_framed)
qed

lemma auth_answer: "auth_handle_request fs sha256 smtp h s req res = Inr out \<Longrightarrow> answer_ok res out"
  by (auto simp: auth_handle_request_def Let_def serve_page_def logout_branch_def auth_not_found_def
      dest: login_submit_answer signup_submit_answer send_verification_answer elim!: result_elims split: if_splits)

interpretation auth: request_handler "auth_handle_request fs sha256 smtp h" for fs sha256 smtp h
  by unfold_locales (auto dest!: auth_answer simp: answer_ok_def)

section \<open>Routes\<close>

text \<open>The six sub-paths of the handler are different, as they are in every shipped config.\<close>

definition routes_ok :: "auth_handler \<Rightarrow> bool" where
  "routes_ok h \<longleftrightarrow> distinct [auth_login h, auth_login h @ ''-submit'', auth_logout h,
     auth_signup h, auth_signup h @ ''-submit'', auth_signup h @ ''-send-verification'']"

definition auth_post :: "auth_handler \<Rightarrow> string \<Rightarrow> string \<Rightarrow> request" where
  "auth_post h sub b =
     \<lparr>req_method = Verb_post, req_target = auth_location h @ sub, req_cookie = [], req_body = b\<rparr>"

lemma auth_post_routes:
  assumes "routes_ok h"
  shows "auth_handle_request fs sha256 smtp h s (auth_post h (auth_login h @ ''-submit'') b) res =
      login_submit fs sha256 h s (auth_post h (auth_login h @ ''-submit'') b) res"
    and "auth_handle_request fs sha256 smtp h s (auth_post h (auth_signup h @ ''-submit'') b) res =
      signup_submit fs sha256 h s (auth_post h (auth_signup h @ ''-submit'') b) res"
    and "auth_handle_request fs sha256 smtp h s (auth_post h (auth_signup h @ ''-send-verification'') b) res =
      send_verification fs smtp h s (auth_post h (auth_signup h @ ''-send-verification'') b) res"
  using assms by (auto simp: auth_handle_request_def auth_post_def routes_ok_def Let_def)

lemma req_body_auth_post [simp]: "req_body (auth_post h sub b) = b"
  by (simp add: auth_post_def)

section \<open>Properties\<close>

text \<open>The text of the cookie for a user.\<close>

definition cookie_text :: "int \<Rightarrow> string \<Rightarrow> string \<Rightarrow> string" where
  "cookie_text i name e = [CHR 0x22] @ to_string i @ ''|'' @ name @ ''|'' @ e @ [CHR 0x22]"

lemma update_cookie_users:
  assumes db: "db_rep fs sha256 dir w us" and "CHR ''|'' \<notin> set e" and "CHR ''|'' \<notin> set p" and "p \<noteq> []"
  shows "update_cookie fs sha256 dir w (''crazyCode|'' @ e @ ''|'' @ p) =
     Inr (case find_user e us of
       Some u \<Rightarrow> if hash_pass sha256 p = u_hash u then cookie_text (u_id u) (u_name u) e else []
     | None \<Rightarrow> [])"
proof -
  have f: "split_fields (''crazyCode|'' @ e @ ''|'' @ p) = [''crazyCode'', e, p]"
    using split_fields_three [of "''crazyCode''" e p] assms(2-) by simp
  have email: "u_email u = e" if "find_user e us = Some u" for u
    using that by (induction us) (auto split: if_splits)
  show ?thesis
  proof (cases "find_user e us")
    case None
    from profiles.li_unknown [OF db None, of p] obtain r where "login fs sha256 dir w e p = Inr (no_profile r, False)" ..
    with None show ?thesis unfolding update_cookie_def f by (simp add: Let_def)
  next
    case (Some u)
    from profiles.li_known [OF db Some, of p] Some email [OF Some] show ?thesis
      unfolding update_cookie_def f by (simp add: Let_def profile_of_def cookie_text_def)
  qed
qed

text \<open>A signup submission for a new address, and a login submission with the right password.\<close>

lemma signup_submit_new:
  assumes routes: "routes_ok h" and db: "db_rep fs sha256 (auth_data_path h @ ''/'') (auth_world s) us"
    and fresh: "find_user e us = None" and len: "int (length us) < int_max"
    and plain: "plain e" "plain name" "CHR ''|'' \<notin> set p" and nonempty: "e \<noteq> []"
  shows "\<exists>w'. auth_handle_request fs sha256 smtp h s
      (auth_post h (auth_signup h @ ''-submit'') (name @ ''|'' @ p @ ''|'' @ e)) new_response =
      Inr (outcome_of (s\<lparr>auth_world := w'\<rparr>)
        (set_result Status_ok (set_content_length (write_body ''OK'' new_response))) []) \<and>
    db_rep fs sha256 (auth_data_path h @ ''/'') w' (register (hash_pass sha256) us (e, name, p))"
proof -
  from plain have bars: "CHR ''|'' \<notin> set name" "CHR ''|'' \<notin> set e" by (simp_all add: plain_def)
  obtain w' where su: "signup fs sha256 (auth_data_path h @ ''/'') (auth_world s) e name p = Inr (w', True)"
    and db': "db_rep fs sha256 (auth_data_path h @ ''/'') w' (register (hash_pass sha256) us (e, name, p))"
    using profiles.su_register [OF db plain(1,2) len, of p] fresh by auto
  have "split_fields (name @ ''|'' @ p @ ''|'' @ e) = [name, p, e]"
    by (rule split_fields_three) (use bars plain nonempty in simp_all)
  with su have "signup_string fs sha256 (auth_data_path h @ ''/'') (auth_world s) (name @ ''|'' @ p @ ''|'' @ e) =
      Inr (w', True)" by (simp add: signup_string_def)
  with db' show ?thesis unfolding auth_post_routes [OF routes] by (auto simp: signup_submit_def)
qed

lemma login_submit_known:
  assumes routes: "routes_ok h" and db: "db_rep fs sha256 (auth_data_path h @ ''/'') (auth_world s) us"
    and known: "find_user e us = Some u" "u_hash u = hash_pass sha256 p"
    and bars: "CHR ''|'' \<notin> set e" "CHR ''|'' \<notin> set p" "p \<noteq> []"
  shows "auth_handle_request fs sha256 smtp h s
      (auth_post h (auth_login h @ ''-submit'') (''crazyCode|'' @ e @ ''|'' @ p)) new_response =
      Inr (outcome_of s (set_result Status_ok
        (set_cookie_field (''crazyCode='' @ cookie_text (u_id u) (u_name u) e @ ''; Path=/'') new_response)) [])"
proof -
  have "update_cookie fs sha256 (auth_data_path h @ ''/'') (auth_world s) (''crazyCode|'' @ e @ ''|'' @ p) =
      Inr (cookie_text (u_id u) (u_name u) e)" using update_cookie_users [OF db bars] known by simp
  moreover have "cookie_text (u_id u) (u_name u) e \<noteq> []" by (simp add: cookie_text_def)
  ultimately show ?thesis unfolding auth_post_routes [OF routes] by (simp add: login_submit_def)
qed


text \<open>
  Without the right password there is no cookie: a login submission for an address
  that is not registered, or with a password of another digest, answers 400 and sets none.
\<close>

theorem login_submit_rejects:
  assumes routes: "routes_ok h" and db: "db_rep fs sha256 (auth_data_path h @ ''/'') (auth_world s) us"
    and wrong: "\<forall>u. find_user e us = Some u \<longrightarrow> hash_pass sha256 p \<noteq> u_hash u"
    and bars: "CHR ''|'' \<notin> set e" "CHR ''|'' \<notin> set p" "p \<noteq> []"
  shows "\<exists>out. auth_handle_request fs sha256 smtp h s
       (auth_post h (auth_login h @ ''-submit'') (''crazyCode|'' @ e @ ''|'' @ p)) new_response = Inr out \<and>
     out_status out = Status_bad_request \<and> res_set_cookie (out_res out) = None \<and> out_state out = s"
proof -
  have "update_cookie fs sha256 (auth_data_path h @ ''/'') (auth_world s) (''crazyCode|'' @ e @ ''|'' @ p) = Inr []"
    using update_cookie_users [OF db bars] wrong by (auto split: option.splits)
  then show ?thesis unfolding auth_post_routes [OF routes] by (simp add: login_submit_def response_ops)
qed

text \<open>
  Of all requests to the handler only a signup submission can change the file system.
\<close>

theorem auth_changes_only_on_signup:
  assumes "auth_handle_request fs sha256 smtp h s req res = Inr out"
    and "req_target req \<noteq> auth_location h @ auth_signup h @ ''-submit''"
  shows "auth_world (out_state out) = auth_world s"
proof -
  have login: "login_submit fs sha256 h s req res = Inr out \<Longrightarrow> auth_world (out_state out) = auth_world s"
    by (auto simp: login_submit_def ebind_eq_Inr_iff split: if_splits)
  have mail: "send_verification fs smtp h s req res = Inr out \<Longrightarrow> auth_world (out_state out) = auth_world s"
    by (cases "find_char CHR ''|'' (req_body req)")
      (auto simp: send_verification_def ebind_eq_Inr_iff Let_def case_prod_beta split: option.splits)
  show ?thesis using assms login mail
    by (auto simp: auth_handle_request_def Let_def serve_page_def logout_branch_def auth_not_found_def elim!: result_elims split: if_splits)
qed

text \<open>
  The verification mail goes to the address before the first bar, with the name and
  the code the client sent, and only if the address is not registered; a registered address
  is answered with 400 and no mail. A mail server that cannot be reached makes the handler
  throw.
\<close>

theorem verification_mail:
  assumes routes: "routes_ok h" and db: "db_rep fs sha256 (auth_data_path h @ ''/'') (auth_world s) us"
    and bars: "CHR ''|'' \<notin> set e" "CHR ''|'' \<notin> set name" "CHR ''|'' \<notin> set code"
    and req: "req = auth_post h (auth_signup h @ ''-send-verification'') (e @ ''|'' @ name @ ''|'' @ code)"
  shows "auth_handle_request fs sha256 smtp h s req new_response =
     ebind (smtp_open smtp (auth_mail s)) (\<lambda>m.
       if find_user e us \<noteq> None then
         ebind (smtp_close smtp m) (\<lambda>m'.
           Inr (outcome_of (s\<lparr>auth_mail := m'\<rparr>) (bad_request_page new_response) []))
       else
         ebind (smtp_close smtp (case smtp_send smtp m e (mail_content name code) of Inr m1 \<Rightarrow> m1 | Inl _ \<Rightarrow> m)) (\<lambda>m'.
           Inr (outcome_of (s\<lparr>auth_mail := m'\<rparr>)
             (set_result (case smtp_send smtp m e (mail_content name code) of
                Inr _ \<Rightarrow> Status_ok | Inl _ \<Rightarrow> Status_bad_request) new_response) [])))"
proof -
  let ?d = "e @ CHR ''|'' # name @ CHR ''|'' # code"
  have f1: "find_char CHR ''|'' ?d = Some (length e)" using bars by (simp add: find_char_append_notin)
  have f2: "find_char_from CHR ''|'' ?d (Suc (length e)) = Some (Suc (length e) + length name)"
    using bars by (simp add: find_char_from_def find_char_append_notin)
  have f3: "find_char_from CHR ''|'' ?d (Suc (Suc (length e) + length name)) = None"
    using bars by (simp add: find_char_from_def find_char_None_iff)
  have ee: "email_exists fs (auth_data_path h @ ''/'') (auth_world s) e = Inr (find_user e us \<noteq> None)"
    using db by (rule profiles.ee_law)
  show ?thesis unfolding req auth_post_routes [OF routes] send_verification_def
    using f1 f2 f3 ee by (cases "smtp_open smtp (auth_mail s)") (auto simp: Let_def deliver_def split: sum.split)
qed

section \<open>Instances\<close>

definition list_smtp :: "(string \<times> string) list smtp_ops" where
  "list_smtp = \<lparr>smtp_open = Inr, smtp_send = (\<lambda>m e c. Inr (m @ [(e, c)])), smtp_close = Inr\<rparr>"

definition demo_auth :: auth_handler where
  "demo_auth = \<lparr>auth_location = ''/auth'', auth_url = ''/auth/login'', auth_root = ''pages'',
     auth_data_path = ''d'', auth_signup = ''/signup'', auth_login = ''/login'', auth_logout = ''/logout'',
     auth_profile = no_profile []\<rparr>"

definition demo_auth_state :: "(mem_world, (string \<times> string) list) auth_state" where
  "demo_auth_state = \<lparr>auth_world = [], auth_mail = []\<rparr>"

lemma demo_routes: "routes_ok demo_auth"
  by (simp add: routes_ok_def demo_auth_def)

lemma demo_db: "db_rep mem_fs demo_sha256 (auth_data_path demo_auth @ ''/'') (auth_world demo_auth_state) []"
  using mem_fs_lawful demo_digest_ok
  by (simp add: db_rep_def db_file_def users_ok_def) (simp add: mem_fs_def demo_auth_state_def)


lemma login_submit_rejects_witness:
  "\<exists>out. auth_handle_request mem_fs demo_sha256 list_smtp demo_auth demo_auth_state
       (auth_post demo_auth (auth_login demo_auth @ ''-submit'') (''crazyCode|'' @ ''a@x'' @ ''|'' @ ''pw'')) new_response = Inr out \<and>
     out_status out = Status_bad_request \<and> res_set_cookie (out_res out) = None \<and> out_state out = demo_auth_state"
  by (rule login_submit_rejects [OF demo_routes demo_db]) simp_all

lemma auth_changes_only_on_signup_witness:
  "auth_world (out_state (logout_branch demo_auth_state new_response)) = auth_world demo_auth_state"
proof (rule auth_changes_only_on_signup)
  show "auth_handle_request mem_fs demo_sha256 list_smtp demo_auth demo_auth_state
      (auth_post demo_auth ''/logout'' []) new_response = Inr (logout_branch demo_auth_state new_response)"
    by (simp add: auth_handle_request_def auth_post_def demo_auth_def)
qed (simp add: auth_post_def demo_auth_def)

lemma verification_mail_witness:
  "\<exists>out. auth_handle_request mem_fs demo_sha256 list_smtp demo_auth demo_auth_state
       (auth_post demo_auth (auth_signup demo_auth @ ''-send-verification'') (''a@x'' @ ''|'' @ ''Ann'' @ ''|'' @ ''42'')) new_response = Inr out \<and>
     out_status out = Status_ok \<and> auth_mail (out_state out) = [(''a@x'', mail_content ''Ann'' ''42'')]"
proof -
  from verification_mail [OF demo_routes demo_db _ _ _ refl, of "''a@x''" "''Ann''" "''42''" list_smtp]
  show ?thesis by (simp add: list_smtp_def demo_auth_state_def response_ops)
qed

end
