(* ===== verification/Routing.thy ===== *)
theory Routing
  imports Config_Query Api_Handler Simple_Handlers Auth_Handler
begin

text \<open>
  From the config to a handler: the routing table built by \<^verbatim>\<open>server::init_server\<close>
  (\<^verbatim>\<open>src/src/server.cc\<close>), the choice of a route by \<^verbatim>\<open>session::match\<close>
  (\<^verbatim>\<open>src/src/session.cc\<close>), the factories (\<^verbatim>\<open>src/src/handler_factories/\<close>) and the
  call of the handler they create.

  All factories hold the same config and one route never changes its factory, so a route is
  the kind of its factory; the map \<^verbatim>\<open>path_counts\<close> that an API factory owns is part of the
  server state, indexed by the route.
\<close>

section \<open>Routes\<close>

datatype factory =
    Static_factory | Echo_factory | Api_factory | Health_factory | Sleep_factory
  | Auth_factory | Console_factory | Factory_404

type_synonym routes = "string \<rightharpoonup> factory"

text \<open>\<^verbatim>\<open>std::map::emplace\<close> keeps an existing entry.\<close>

definition emplace :: "string \<Rightarrow> factory \<Rightarrow> routes \<Rightarrow> routes" where
  "emplace k f rs = (if rs k = None then rs(k \<mapsto> f) else rs)"

fun factory_of :: "endpoint_type \<Rightarrow> factory option" where
  "factory_of Ep_static = Some Static_factory"
| "factory_of Ep_echo = Some Echo_factory"
| "factory_of Ep_api = Some Api_factory"
| "factory_of Ep_health = Some Health_factory"
| "factory_of Ep_sleep = Some Sleep_factory"
| "factory_of Ep_auth = Some Auth_factory"
| "factory_of Ep_console = Some Console_factory"
| "factory_of Ep_profile = None"
| "factory_of Ep_invalid = None"

text \<open>The constructor of the API factory creates the root directory; an error is only logged.\<close>

definition api_factory_init :: "'w fs_ops \<Rightarrow> NginxConfig \<Rightarrow> string \<Rightarrow> 'w \<Rightarrow> 'w result" where
  "api_factory_init fs cfg location w =
     (let root = get_root cfg location in
      ebind (fs_exists fs w root) (\<lambda>ex.
        Inr (if \<not> ex then fst (fs_create_directory fs w root) else w)))"

fun init_routes :: "'w fs_ops \<Rightarrow> NginxConfig \<Rightarrow> path list \<Rightarrow> 'w \<times> routes \<Rightarrow> ('w \<times> routes) result" where
  "init_routes fs cfg [] (w, rs) = Inr (w, rs)"
| "init_routes fs cfg (p # ps) (w, rs) =
     ebind (if p_type p = Ep_api then api_factory_init fs cfg (p_endpoint p) w else Inr w) (\<lambda>w'.
       init_routes fs cfg ps
         (w', case factory_of (p_type p) of None \<Rightarrow> rs | Some f \<Rightarrow> emplace (p_endpoint p) f rs))"

text \<open>\<^verbatim>\<open>init_server\<close>: the config with its paths, the routing table and the file system.\<close>

definition init_server ::
  "'w fs_ops \<Rightarrow> NginxConfig \<Rightarrow> routes \<Rightarrow> 'w \<Rightarrow> (NginxConfig \<times> routes \<times> 'w) result" where
  "init_server fs config rs0 w =
     ebind (get_paths config) (\<lambda>cfg.
       ebind (init_routes fs cfg (paths cfg) (w, rs0)) (\<lambda>(w', rs).
         Inr (cfg, emplace ''/'' Factory_404 rs, w')))"

text \<open>\<^verbatim>\<open>set_routes\<close> of a server with its config and table\<close>

definition server_set_routes :: "routes \<Rightarrow> NginxConfig \<times> routes \<Rightarrow> NginxConfig \<times> routes" where
  "server_set_routes rs = apsnd (\<lambda>_. rs)"

section \<open>Matching\<close>

function match_loop :: "routes \<Rightarrow> string \<Rightarrow> string" where
  "match_loop rs matched_str =
     (if rs matched_str \<noteq> None then matched_str
      else case rfind_char CHR ''/'' matched_str of
        None \<Rightarrow> ''/''
      | Some pos \<Rightarrow> match_loop rs (take pos matched_str))"
  by pat_completeness auto
termination
  by (relation "measure (\<lambda>(rs, s). length s)") (auto dest: rfind_char_SomeD)

declare match_loop.simps [simp del]

definition match_route :: "routes \<Rightarrow> string \<Rightarrow> string" where
  "match_route rs url = match_loop rs url"

text \<open>
  The loop of \<^verbatim>\<open>match\<close> with its variables \<^verbatim>\<open>matched_str\<close> and \<^verbatim>\<open>pos\<close>, for a bounded number of
  evaluations of the loop condition: \<open>None\<close> when the bound is used up.
\<close>

fun match_iter :: "nat \<Rightarrow> routes \<Rightarrow> string \<Rightarrow> nat option \<Rightarrow> string option" where
  "match_iter 0 rs matched_str pos = None"
| "match_iter (Suc k) rs matched_str None = Some ''/''"
| "match_iter (Suc k) rs matched_str (Some pos) =
     (let m = take pos matched_str in
      if rs m \<noteq> None then Some m else match_iter k rs m (rfind_char CHR ''/'' m))"

section \<open>Handlers\<close>

datatype handler =
    H_static static_handler
  | H_echo location_handler
  | H_health location_handler
  | H_sleep location_handler
  | H_404 location_handler
  | H_api string api_handler
  | H_auth auth_handler
  | H_console console_handler

record ('w, 'm) server_state =
  sv_world :: 'w
  sv_mail :: 'm
  sv_clock :: nat
  sv_counts :: "string \<Rightarrow> string \<rightharpoonup> int list"

text \<open>\<^verbatim>\<open>path_map[k]\<close> on the copy of the map\<close>

definition map_get :: "string \<Rightarrow> (string \<rightharpoonup> string) \<Rightarrow> string" where
  "map_get k m = (case m k of None \<Rightarrow> [] | Some v \<Rightarrow> v)"

text \<open>\<^verbatim>\<open>create\<close> of each factory; the one for the API runs the constructor that reads the disk.\<close>

definition static_create :: "NginxConfig \<Rightarrow> string \<Rightarrow> string \<Rightarrow> handler" where
  "static_create cfg location url =
     H_static (new_static_handler location (get_root cfg location) url)"

definition echo_create :: "string \<Rightarrow> string \<Rightarrow> handler" where
  "echo_create location url = H_echo (new_echo_handler location url)"

definition health_create :: "string \<Rightarrow> string \<Rightarrow> handler" where
  "health_create location url = H_health (new_health_handler location url)"

definition sleep_create :: "string \<Rightarrow> string \<Rightarrow> handler" where
  "sleep_create location url = H_sleep (new_sleep_handler location url)"

definition not_found_create :: "string \<Rightarrow> string \<Rightarrow> handler" where
  "not_found_create location url = H_404 (new_not_found_handler location url)"

definition api_create ::
  "'w fs_ops \<Rightarrow> NginxConfig \<Rightarrow> string \<Rightarrow> string \<Rightarrow> user_profile \<Rightarrow> ('w, 'm) server_state
     \<Rightarrow> (handler \<times> ('w, 'm) server_state) result" where
  "api_create fs cfg location url profile st =
     ebind (api_load fs (get_root cfg location) \<lparr>world = sv_world st, path_counts = sv_counts st location\<rparr>) (\<lambda>s.
       Inr (H_api location \<lparr>api_location = location, api_root = get_root cfg location, api_url = url,
              api_profile = profile\<rparr>,
            st\<lparr>sv_counts := (sv_counts st)(location := path_counts s)\<rparr>))"

definition auth_create :: "NginxConfig \<Rightarrow> string \<Rightarrow> string \<Rightarrow> user_profile \<Rightarrow> handler" where
  "auth_create cfg location request_url profile =
     (let path_map = get_auth_path_map cfg location in
      H_auth (new_auth_handler location request_url (map_get ''root'' path_map) (map_get ''data_path'' path_map)
        (map_get ''signup'' path_map) (map_get ''login'' path_map) (map_get ''logout'' path_map) profile))"

definition console_create :: "NginxConfig \<Rightarrow> string \<Rightarrow> string \<Rightarrow> user_profile \<Rightarrow> handler" where
  "console_create cfg location request_url profile =
     (let path_map = get_auth_path_map cfg location in
      H_console (new_console_handler location request_url (map_get ''root'' path_map) profile))"

lemmas create_defs = static_create_def echo_create_def health_create_def sleep_create_def
  not_found_create_def api_create_def auth_create_def console_create_def

text \<open>The virtual \<^verbatim>\<open>get_profile\<close>, which only the authentication handler overrides.\<close>

fun get_profile :: "handler \<Rightarrow> user_profile" where
  "get_profile (H_auth h) = auth_get_profile h"
| "get_profile h = \<lparr>user_id = 0, username = [], email = [], login_status = False\<rparr>"

text \<open>The virtual call \<^verbatim>\<open>factory->create\<close>.\<close>

fun create ::
  "'w fs_ops \<Rightarrow> NginxConfig \<Rightarrow> factory \<Rightarrow> string \<Rightarrow> string \<Rightarrow> user_profile \<Rightarrow> ('w, 'm) server_state
     \<Rightarrow> (handler \<times> ('w, 'm) server_state) result" where
  "create fs cfg Static_factory location url profile st = Inr (static_create cfg location url, st)"
| "create fs cfg Echo_factory location url profile st = Inr (echo_create location url, st)"
| "create fs cfg Health_factory location url profile st = Inr (health_create location url, st)"
| "create fs cfg Sleep_factory location url profile st = Inr (sleep_create location url, st)"
| "create fs cfg Factory_404 location url profile st = Inr (not_found_create location url, st)"
| "create fs cfg Api_factory location url profile st = api_create fs cfg location url profile st"
| "create fs cfg Auth_factory location url profile st = Inr (auth_create cfg location url profile, st)"
| "create fs cfg Console_factory location url profile st = Inr (console_create cfg location url profile, st)"

declare create_defs [simp]

lemma create_get_profile:
  "create fs cfg f location url profile st = Inr (h, st') \<Longrightarrow>
     get_profile h = (if f = Auth_factory then profile else get_profile (H_echo (new_echo_handler location url)))"
  by (cases f) (auto simp: Let_def auth_get_profile_def elim!: result_elims)

text \<open>The outcome of a handler as an outcome on the server state.\<close>

definition embed :: "('a \<Rightarrow> 's) \<Rightarrow> 'a outcome result \<Rightarrow> 's outcome result" where
  "embed f r = ebind r (\<lambda>out.
     Inr \<lparr>out_state = f (out_state out), out_status = out_status out, out_res = out_res out, out_log = out_log out\<rparr>)"

text \<open>The virtual call \<^verbatim>\<open>handle_request\<close>.\<close>

fun run_handler ::
  "'w fs_ops \<Rightarrow> (string \<Rightarrow> nat list) \<Rightarrow> 'm smtp_ops \<Rightarrow> (request \<Rightarrow> string) \<Rightarrow> handler
     \<Rightarrow> ('w, 'm) server_state \<Rightarrow> request \<Rightarrow> response \<Rightarrow> ('w, 'm) server_state outcome result" where
  "run_handler fs sha256 smtp ser (H_static h) st req res =
     embed (\<lambda>w. st\<lparr>sv_world := w\<rparr>) (static_handle_request fs h (sv_world st) req res)"
| "run_handler fs sha256 smtp ser (H_echo h) st req res = echo_handle_request ser h st req res"
| "run_handler fs sha256 smtp ser (H_health h) st req res = health_handle_request h st req res"
| "run_handler fs sha256 smtp ser (H_sleep h) st req res =
     embed (\<lambda>t. st\<lparr>sv_clock := t\<rparr>) (sleep_handle_request h (sv_clock st) req res)"
| "run_handler fs sha256 smtp ser (H_404 h) st req res = not_found_handle_request h st req res"
| "run_handler fs sha256 smtp ser (H_api loc h) st req res =
     embed (\<lambda>s. st\<lparr>sv_world := world s, sv_counts := (sv_counts st)(loc := path_counts s)\<rparr>)
       (api_handle_request fs h \<lparr>world = sv_world st, path_counts = sv_counts st loc\<rparr> req res)"
| "run_handler fs sha256 smtp ser (H_auth h) st req res =
     embed (\<lambda>s. st\<lparr>sv_world := auth_world s, sv_mail := auth_mail s\<rparr>)
       (auth_handle_request fs sha256 smtp h \<lparr>auth_world = sv_world st, auth_mail = sv_mail st\<rparr> req res)"
| "run_handler fs sha256 smtp ser (H_console h) st req res =
     embed (\<lambda>w. st\<lparr>sv_world := w\<rparr>) (console_handle_request fs h (sv_world st) req res)"

lemma embed_laws:
  assumes "request_handler hf"
  shows "embed f (hf s req res) = Inr out \<Longrightarrow> out_status out = res_result (out_res out)"
    and "embed f (hf s req res) = Inr out \<Longrightarrow> framed res \<Longrightarrow> framed (out_res out)"
  by (auto simp: embed_def ebind_eq_Inr_iff request_handler.status_law [OF assms]
      request_handler.framing_law [OF assms])

lemmas embedded_laws =
  embed_laws [OF static.request_handler_axioms] embed_laws [OF sleep.request_handler_axioms]
  embed_laws [OF api.request_handler_axioms] embed_laws [OF auth.request_handler_axioms]
  embed_laws [OF console.request_handler_axioms]

interpretation dispatch: request_handler "run_handler fs sha256 smtp ser h" for fs sha256 smtp ser h
proof
  fix st :: "('a, 'b) server_state" and req res out
  assume r: "run_handler fs sha256 smtp ser h st req res = Inr out"
  show "out_status out = res_result (out_res out)"
    using r by (cases h)
      (auto dest: embedded_laws echo.status_law health.status_law not_found.status_law)
  show "framed res \<Longrightarrow> framed (out_res out)"
    using r by (cases h)
      (auto dest: embedded_laws echo.framing_law health.framing_law not_found.framing_law)
qed

section \<open>Lemmas on matching\<close>

text \<open>The candidates for a url: the url itself and what stands before one of its slashes.\<close>

definition candidate :: "string \<Rightarrow> string \<Rightarrow> bool" where
  "candidate url c \<longleftrightarrow> c = url \<or> (\<exists>i < length url. url ! i = CHR ''/'' \<and> c = take i url)"

lemma candidate_prefix: "candidate url c \<Longrightarrow> prefix c url"
  by (auto simp: candidate_def take_is_prefix)

lemma candidate_step:
  assumes "rfind_char CHR ''/'' url = Some pos"
  shows "candidate url c \<longleftrightarrow> c = url \<or> candidate (take pos url) c"
proof -
  note r = rfind_char_SomeD [OF assms]
  have le: "i \<le> pos" if "i < length url" "url ! i = CHR ''/''" for i
  proof (rule ccontr)
    assume "\<not> i \<le> pos"
    then have "url ! i \<in> set (drop (Suc pos) url)"
      using that(1) by (auto simp: in_set_conv_nth intro!: exI [of _ "i - Suc pos"])
    with that(2) r(3) show False by simp
  qed
  show ?thesis
  proof
    assume "candidate url c"
    then consider "c = url" | i where "i < length url" "url ! i = CHR ''/''" "c = take i url"
      by (auto simp: candidate_def)
    then show "c = url \<or> candidate (take pos url) c"
    proof cases
      case (2 i)
      with le [of i] show ?thesis
        by (cases "i = pos") (auto simp: candidate_def min_def intro!: exI [of _ i])
    qed simp
  next
    assume "c = url \<or> candidate (take pos url) c"
    then show "candidate url c"
      using r(1,2) by (elim disjE) (auto simp: candidate_def min_def intro: exI [of _ pos] dest: less_trans)
  qed
qed

lemma match_loop_spec:
  "(\<exists>c. candidate url c \<and> rs c \<noteq> None \<and> match_loop rs url = c \<and>
      (\<forall>c'. candidate url c' \<and> rs c' \<noteq> None \<longrightarrow> length c' \<le> length c)) \<or>
   (\<forall>c. candidate url c \<longrightarrow> rs c = None) \<and> match_loop rs url = ''/''"
proof (induction rs url rule: match_loop.induct)
  case (1 rs url)
  show ?case
  proof (cases "rs url")
    case (Some f)
    then have "match_loop rs url = url" by (simp add: match_loop.simps [of rs url])
    moreover have "length c' \<le> length url" if "candidate url c'" for c'
      using candidate_prefix [OF that] by (rule prefix_length_le)
    ultimately show ?thesis using Some by (auto simp: candidate_def)
  next
    case None
    show ?thesis
    proof (cases "rfind_char CHR ''/'' url")
      case none: None
      then have "candidate url c \<longleftrightarrow> c = url" for c
        by (auto simp: candidate_def rfind_char_None_iff in_set_conv_nth)
      with None none show ?thesis by (simp add: match_loop.simps [of rs url])
    next
      case (Some pos)
      with None have "match_loop rs url = match_loop rs (take pos url)"
        by (simp add: match_loop.simps [of rs url])
      with "1.IH" [OF _ Some] None candidate_step [OF Some] show ?thesis by auto
    qed
  qed
qed

lemma count_list_take:
  assumes "pos < length s" and "s ! pos = c"
  shows "count_list (take pos s) c < count_list s c"
proof -
  have "take pos s @ c # drop (Suc pos) s = s" using id_take_nth_drop [OF assms(1)] assms(2) by simp
  from arg_cong [OF this, of "\<lambda>x. count_list x c"]
  show ?thesis unfolding count_list_append count_list.simps by simp
qed

lemma match_iter_eq:
  assumes "count_list (take pos s) CHR ''/'' + 2 \<le> k"
  shows "match_iter k rs s (Some pos) = Some (match_loop rs (take pos s))"
  using assms
proof (induction rs "take pos s" arbitrary: s pos k rule: match_loop.induct)
  case (1 rs s pos)
  from 1(2) obtain j where k: "k = Suc j" by (cases k) auto
  let ?m = "take pos s"
  show ?case
  proof (cases "rs ?m \<noteq> None \<or> rfind_char CHR ''/'' ?m = None")
    case True
    moreover from 1(2) k have "match_iter j rs ?m None = Some ''/''" by (cases j) auto
    ultimately show ?thesis by (auto simp: k Let_def match_loop.simps [of rs ?m])
  next
    case False
    then obtain p where p: "rfind_char CHR ''/'' ?m = Some p" and none: "\<not> rs ?m \<noteq> None" by auto
    note d = rfind_char_SomeD(1,2) [OF p]
    have "count_list (take p ?m) CHR ''/'' + 2 \<le> j" using count_list_take [OF d] 1(2) k by simp
    from 1(1) [OF none p refl this] have "match_iter j rs ?m (Some p) = Some (match_loop rs (take p ?m))" .
    with none p show ?thesis by (simp add: k Let_def match_loop.simps [of rs ?m])
  qed
qed

section \<open>Lemmas on the table\<close>

lemma init_routes_table:
  "init_routes fs cfg ps (w, rs) = Inr (w', rs') \<Longrightarrow>
   rs' k =
     (case rs k of Some f \<Rightarrow> Some f
      | None \<Rightarrow> (case find (\<lambda>p. p_endpoint p = k \<and> factory_of (p_type p) \<noteq> None) ps of
          None \<Rightarrow> None | Some p \<Rightarrow> factory_of (p_type p)))"
proof (induction ps arbitrary: w rs)
  case (Cons p ps)
  from Cons.prems obtain w1 where "init_routes fs cfg ps
      (w1, case factory_of (p_type p) of None \<Rightarrow> rs | Some f \<Rightarrow> emplace (p_endpoint p) f rs) = Inr (w', rs')"
    by (auto elim!: result_elims)
  from Cons.IH [OF this] show ?case
    by (cases "factory_of (p_type p)"; cases "p_endpoint p = k"; cases "rs k"; cases "rs (p_endpoint p)")
      (simp_all add: emplace_def)
qed (simp split: option.split)

lemma init_server_table:
  assumes "init_server fs config Map.empty w = Inr (cfg, rs, w')"
  shows "rs k = (case find (\<lambda>p. p_endpoint p = k \<and> factory_of (p_type p) \<noteq> None) (paths cfg) of
      Some p \<Rightarrow> factory_of (p_type p) | None \<Rightarrow> if k = ''/'' then Some Factory_404 else None)"
proof -
  from assms obtain rs1 where i: "init_routes fs cfg (paths cfg) (w, Map.empty) = Inr (w', rs1)"
    and rs: "rs = emplace ''/'' Factory_404 rs1"
    by (auto simp: init_server_def elim!: result_elims)
  from init_routes_table [OF i, of k]
  have t: "rs1 k = (case find (\<lambda>p. p_endpoint p = k \<and> factory_of (p_type p) \<noteq> None) (paths cfg) of
      None \<Rightarrow> None | Some p \<Rightarrow> factory_of (p_type p))" by simp
  have f: "factory_of (p_type p) \<noteq> None"
    if "find (\<lambda>p. p_endpoint p = k \<and> factory_of (p_type p) \<noteq> None) (paths cfg) = Some p" for p
    using that by (auto simp: find_Some_iff)
  show ?thesis
    using t f by (cases "k = ''/''") (auto simp: rs emplace_def split: option.splits)
qed

lemma init_server_routed:
  assumes "init_server fs config Map.empty w = Inr (cfg, rs, w')"
  shows "rs (match_route rs url) \<noteq> None"
proof -
  have "rs ''/'' \<noteq> None"
    using init_server_table [OF assms, of "''/''"] by (auto simp: find_Some_iff split: option.splits)
  then show ?thesis using match_loop_spec [of url rs] by (auto simp: match_route_def)
qed

section \<open>Properties\<close>

text \<open>
  C8. A route is chosen by longest prefix: among the url and the parts before its
  slashes, \<^verbatim>\<open>match\<close> returns the longest one that is in the table, and the default
  \<^verbatim>\<open>/\<close> when none is.
\<close>

theorem match_route_longest:
  "(\<exists>c. candidate url c \<and> rs c \<noteq> None \<and> match_route rs url = c \<and>
      (\<forall>c'. candidate url c' \<and> rs c' \<noteq> None \<longrightarrow> length c' \<le> length c)) \<or>
   (\<forall>c. candidate url c \<longrightarrow> rs c = None) \<and> match_route rs url = ''/''"
  unfolding match_route_def by (rule match_loop_spec)

text \<open>
  C23. The loop of \<^verbatim>\<open>match\<close> ends, whatever the table: it looks a candidate up at most once for
  every slash of the url and once for the url itself, so that two more evaluations of the loop
  condition than there are slashes always give the result.
\<close>

theorem match_terminates:
  assumes "count_list url CHR ''/'' + 2 \<le> k"
  shows "match_iter k rs url (Some (length url)) = Some (match_route rs url)"
  using match_iter_eq [of "length url" url k rs] assms by (simp add: match_route_def)


text \<open>
  A request that is routed to a static location of the config is answered when the
  file system can tell the state of every path: the
  location is a prefix of the target without its trailing slashes, so \<^verbatim>\<open>substr\<close> does not
  throw. The file is looked up below the root of that location.
\<close>

theorem routed_static_answers:
  assumes "candidate (req_target req) (match_route rs (req_target req))"
    and "trim_slashes (match_route rs (req_target req)) = match_route rs (req_target req)"
    and "create fs cfg Static_factory (match_route rs (req_target req)) url profile st = Inr (h, st')"
    and "\<forall>p. fs_queryable fs (sv_world st) p"
  shows "\<exists>out rest. trim_slashes (req_target req) = match_route rs (req_target req) @ rest \<and>
     run_handler fs sha256 smtp ser h st' req new_response = Inr out \<and> out_state out = st \<and>
     (out_status out = Status_ok \<longrightarrow>
        fs_read fs (sv_world st) (get_root cfg (match_route rs (req_target req)) @ ''/'' @ rest) =
          Some (res_body (out_res out)))"
proof -
  define loc where "loc = match_route rs (req_target req)"
  obtain r where r: "req_target req = loc @ r"
    using candidate_prefix [OF assms(1)] unfolding loc_def by (rule prefixE)
  have "prefix loc (trim_slashes (req_target req))"
    unfolding r by (rule trim_slashes_covers) (use assms(2) in \<open>simp only: loc_def\<close>)
  then obtain rest where rest: "trim_slashes (req_target req) = loc @ rest" by (rule prefixE)
  have h: "h = H_static \<lparr>static_location = loc, static_root = get_root cfg loc, static_url = url\<rparr>" "st' = st"
    using assms(3) by (simp_all add: loc_def)
  let ?h = "\<lparr>static_location = loc, static_root = get_root cfg loc, static_url = url\<rparr>"
  from rest have "trim_slashes (req_target req) = static_location ?h @ rest" by simp
  moreover from assms(4) have "fs_queryable fs (sv_world st) (static_root ?h @ ''/'' @ rest)" by blast
  ultimately obtain ex regular where "fs_exists fs (sv_world st) (static_root ?h @ ''/'' @ rest) = Inr ex"
    and "fs_is_regular_file fs (sv_world st) (static_root ?h @ ''/'' @ rest) = Inr regular"
    and t: "trim_slashes (req_target req) = static_location ?h @ rest"
    by (auto elim: fs_queryableE)
  from static_result [OF t this(1,2)] obtain out where
    out: "static_handle_request fs ?h (sv_world st) req new_response = Inr out" "out_state out = sv_world st"
      "out_status out = Status_ok \<Longrightarrow>
        fs_read fs (sv_world st) (get_root cfg loc @ ''/'' @ rest) = Some (res_body (out_res out))"
    by (auto split: option.splits if_splits)
  then show ?thesis
    using rest unfolding loc_def [symmetric] h by (simp add: embed_def)
qed

section \<open>Instances\<close>

definition demo_config :: NginxConfig where
  "demo_config = \<lparr>statements =
     [Statement [''location'', ''/s/'', ''StaticHandler''] (Some [Statement [''root'', ''r''] None]),
      Statement [''location'', ''/echo'', ''EchoHandler''] (Some [])], paths = []\<rparr>"

definition demo_paths :: "path list" where
  "demo_paths = [new_path\<lparr>p_type := Ep_static, p_endpoint := ''/s'', p_root := ''r''\<rparr>, simple_path Ep_echo ''/echo'']"

lemma demo_get_paths: "get_paths demo_config = Inr (demo_config\<lparr>paths := demo_paths\<rparr>)"
proof -
  have "trim_slashes ''/s/'' = ''/s''" by code_simp
  then show ?thesis
    by (simp add: get_paths_def demo_config_def demo_paths_def statement_paths_def token_at_def handler_paths_def
        child_statements_def keyword_defs)
qed

lemma demo_init_server:
  "init_server fs demo_config Map.empty w =
     Inr (demo_config\<lparr>paths := demo_paths\<rparr>,
       [''/s'' \<mapsto> Static_factory, ''/echo'' \<mapsto> Echo_factory, ''/'' \<mapsto> Factory_404], w)"
proof -
  have "trim_slashes ''/echo'' = ''/echo''" by code_simp
  then show ?thesis
    by (simp add: init_server_def demo_get_paths) (simp add: demo_paths_def emplace_def simple_path_def new_path_def)
qed

lemma match_route_longest_witness:
  "candidate ''/a/b/c'' ''/a'' \<and> match_route [''/a'' \<mapsto> Echo_factory] ''/a/b/c'' = ''/a''"
proof -
  have c: "candidate ''/a/b/c'' ''/a''" unfolding candidate_def by (rule disjI2, rule exI [of _ 2]) simp
  define rs :: routes where "rs = [''/a'' \<mapsto> Echo_factory]"
  have only: "rs x \<noteq> None \<longleftrightarrow> x = ''/a''" for x by (simp add: rs_def)
  have "match_route rs ''/a/b/c'' = ''/a''"
    using match_route_longest [of "''/a/b/c''" rs] c unfolding only by (metis only)
  with c show ?thesis by (simp only: rs_def simp_thms)
qed

lemma match_terminates_witness:
  "match_iter 5 [''/a'' \<mapsto> Echo_factory] ''/a/b/c'' (Some (length ''/a/b/c'')) =
     Some (match_route [''/a'' \<mapsto> Echo_factory] ''/a/b/c'')"
  by (rule match_terminates) simp


lemma routed_static_answers_witness:
  "\<exists>out rest. trim_slashes ''/s/a.txt'' = ''/s'' @ rest \<and>
     run_handler mem_fs demo_sha256 list_smtp req_body
       (H_static \<lparr>static_location = ''/s'', static_root = ''r'', static_url = ''/s/a.txt''\<rparr>)
       \<lparr>sv_world = [(''r//a.txt'', File ''hi'')], sv_mail = [], sv_clock = 0, sv_counts = (\<lambda>_. Map.empty)\<rparr>
       \<lparr>req_method = Verb_get, req_target = ''/s/a.txt'', req_cookie = [], req_body = []\<rparr> new_response = Inr out"
proof -
  let ?rs = "[''/s'' \<mapsto> Static_factory] :: routes"
  let ?st = "\<lparr>sv_world = [(''r//a.txt'', File ''hi'')], sv_mail = [], sv_clock = 0, sv_counts = (\<lambda>_. Map.empty)\<rparr>"
  let ?req = "\<lparr>req_method = Verb_get, req_target = ''/s/a.txt'', req_cookie = [], req_body = []\<rparr>"
  let ?cfg = "demo_config\<lparr>paths := demo_paths\<rparr>"
  have m: "match_route ?rs (req_target ?req) = ''/s''"
    by (simp add: match_route_def match_loop.simps)
  have c: "candidate ''/s/a.txt'' ''/s''" unfolding candidate_def by (rule disjI2, rule exI [of _ 2]) simp
  have t: "trim_slashes ''/s'' = ''/s''" by code_simp
  have g: "get_root ?cfg ''/s'' = ''r''" by (simp add: get_root_def demo_paths_def)
  show ?thesis
    using routed_static_answers [of ?req ?rs mem_fs ?cfg "''/s/a.txt''" "no_profile []" ?st
        "H_static \<lparr>static_location = ''/s'', static_root = ''r'', static_url = ''/s/a.txt''\<rparr>" ?st
        demo_sha256 list_smtp req_body]
    unfolding m using c t g by (auto simp: mem_fs_def fs_queryable_def)
qed

end
