(* ===== verification/Session.thy ===== *)
theory Session
  imports Routing
begin

text \<open>
  One connection (\<^verbatim>\<open>src/src/session.cc\<close>) and the accept loop around it
  (\<^verbatim>\<open>src/src/server.cc\<close>). What the code takes from Boost is a parameter: the record
  \<open>deps\<close> holds the file system, SHA-256, the mail session, the serialisation of a request and
  \<^verbatim>\<open>bhttp::param_list\<close>, which splits a Cookie field into names and values.

  An exception that leaves \<^verbatim>\<open>handle_read\<close> leaves \<^verbatim>\<open>io_service::run\<close> on a worker thread
  and ends the process: the value \<open>Inl\<close>, and the field \<open>crashed\<close> of a server run.
\<close>

section \<open>The user of a request\<close>

text \<open>\<^verbatim>\<open>update_user\<close>: the loop over the parameters of the cookie field.\<close>

fun user_loop :: "(string \<times> string) list \<Rightarrow> user_profile \<Rightarrow> (bool \<times> user_profile) result" where
  "user_loop [] user = Inr (False, user)"
| "user_loop ((key, val) # ps) user =
     (if key = ''crazyCode'' then
        let info = split_fields val in
        if length info \<noteq> 3 then Inr (False, user)
        else ebind (stoi (info ! 0)) (\<lambda>i.
          Inr (True, user\<lparr>user_id := i, username := info ! 1, email := info ! 2, login_status := True\<rparr>))
      else user_loop ps user)"

definition update_user ::
  "(string \<Rightarrow> (string \<times> string) list) \<Rightarrow> string \<Rightarrow> user_profile \<Rightarrow> (bool \<times> user_profile) result" where
  "update_user param_list cookie_string user = user_loop (param_list ('';'' @ cookie_string)) user"

definition initial_profile :: user_profile where
  "initial_profile = \<lparr>user_id = 0, username = [], email = [], login_status = False\<rparr>"

section \<open>A request\<close>

record ('w, 'm) deps =
  d_fs :: "'w fs_ops"
  d_sha256 :: "string \<Rightarrow> nat list"
  d_smtp :: "'m smtp_ops"
  d_serialize :: "request \<Rightarrow> string"
  d_param_list :: "string \<Rightarrow> (string \<times> string) list"

text \<open>
  A session is waiting for a connection, reading, shut down after its answer, left open
  because the peer was gone, or deleted. The other fields are the members of the class that
  its methods use; \<^verbatim>\<open>get_session\<close> allocates a session with their initial values.
\<close>

datatype session_phase = Accepting | Reading | Closed | Unclosed | Deleted

record session =
  ss_phase :: session_phase
  ss_routes :: routes
  ss_request :: request
  ss_profile :: user_profile
  ss_dest_ip :: string

definition empty_request :: request where
  "empty_request = \<lparr>req_method = Verb_other [], req_target = [], req_cookie = [], req_body = []\<rparr>"

definition new_session :: session where
  "new_session = \<lparr>ss_phase = Accepting, ss_routes = Map.empty, ss_request = empty_request,
     ss_profile = initial_profile, ss_dest_ip = ''0.0.0.0''\<rparr>"

definition get_session :: session where
  [simp]: "get_session = new_session"

definition set_request :: "request \<Rightarrow> session \<Rightarrow> session" where
  "set_request req ss = ss\<lparr>ss_request := req\<rparr>"

definition set_routes :: "routes \<Rightarrow> session \<Rightarrow> session" where
  "set_routes rs ss = ss\<lparr>ss_routes := rs\<rparr>"

definition logIn :: "session \<Rightarrow> session" where
  "logIn ss = ss\<lparr>ss_profile := (ss_profile ss)\<lparr>login_status := True\<rparr>\<rparr>"

definition logOut :: "session \<Rightarrow> session" where
  "logOut ss = ss\<lparr>ss_profile := (ss_profile ss)\<lparr>login_status := False\<rparr>\<rparr>"

text \<open>The lines of the log, with their severity.\<close>

datatype severity = Info | Error | Fatal

type_synonym log_lines = "(severity \<times> string) list"

definition session_line :: "session \<Rightarrow> string \<Rightarrow> string \<Rightarrow> string" where
  "session_line ss func_name message =
     ''Client IP: '' @ ss_dest_ip ss @ [CHR 0x09] @ ''Request url: '' @ req_target (ss_request ss) @ [CHR 0x09] @
     ''session::'' @ func_name @ '':'' @ [CHR 0x09] @ message"

definition log_info :: "session \<Rightarrow> string \<Rightarrow> string \<Rightarrow> severity \<times> string" where
  "log_info ss func_name message = (Info, session_line ss func_name message)"

definition log_error :: "session \<Rightarrow> string \<Rightarrow> string \<Rightarrow> severity \<times> string" where
  "log_error ss func_name message = (Error, session_line ss func_name message)"

text \<open>\<^verbatim>\<open>start\<close>; the argument is the address of the peer, if \<^verbatim>\<open>remote_endpoint\<close> gives one.\<close>

definition start :: "string option \<Rightarrow> session \<Rightarrow> session \<times> log_lines" where
  "start remote_ep ss =
     (let ss1 = ss\<lparr>ss_dest_ip := (case remote_ep of None \<Rightarrow> ''127.0.0.1'' | Some address \<Rightarrow> address)\<rparr>
      in (ss1\<lparr>ss_phase := Reading\<rparr>, [log_info ss1 ''start'' ''Accepting incoming requests.'']))"

text \<open>The socket: whether \<^verbatim>\<open>remote_endpoint\<close> and \<^verbatim>\<open>bhttp::write\<close> succeed, and the error text.\<close>

record sock =
  peer_ok :: bool
  peer_error :: string
  write_ok :: bool

record ('w, 'm) read_outcome =
  ro_session :: session
  ro_response :: "response option"
  ro_state :: "('w, 'm) server_state"
  ro_log :: log_lines

definition handle_write :: "bool \<Rightarrow> session \<Rightarrow> bool \<times> session \<times> log_lines" where
  "handle_write error ss =
     (if \<not> error then
        (True, ss\<lparr>ss_phase := Closed\<rparr>, [log_info ss ''handle_write'' ''connection closed successfully''])
      else
        (False, ss\<lparr>ss_phase := Deleted\<rparr>, [log_error ss ''handle_write'' ''error closing the connection'']))"

definition write_to_socket ::
  "('w, 'm) deps \<Rightarrow> sock \<Rightarrow> handler \<Rightarrow> session \<Rightarrow> ('w, 'm) server_state \<Rightarrow> ('w, 'm) read_outcome result" where
  "write_to_socket d sk h ss st =
     (if peer_ok sk then
        ebind (run_handler (d_fs d) (d_sha256 d) (d_smtp d) (d_serialize d) h st (ss_request ss) new_response) (\<lambda>out.
          if write_ok sk then
            (case handle_write False ss of (_, ss1, lg) \<Rightarrow>
              Inr \<lparr>ro_session = ss1, ro_response = Some (out_res out), ro_state = out_state out,
                ro_log = map (Pair Info) (out_log out) @ lg\<rparr>)
          else Inl System_error)
      else
        Inr \<lparr>ro_session = ss\<lparr>ss_phase := Unclosed\<rparr>, ro_response = None, ro_state = st,
          ro_log = [(Error, ''Unable to write to socket. Error code: '' @ peer_error sk)]\<rparr>)"

text \<open>
  \<^verbatim>\<open>handle_read\<close>, the request being in the session; \<^verbatim>\<open>routes_[location]\<close> of a missing route is
  a null pointer.
\<close>

definition handle_read ::
  "('w, 'm) deps \<Rightarrow> NginxConfig \<Rightarrow> bool \<Rightarrow> sock \<Rightarrow> session \<Rightarrow> ('w, 'm) server_state
     \<Rightarrow> ('w, 'm) read_outcome result" where
  "handle_read d cfg error sk ss st =
     (if \<not> error then
        ebind (update_user (d_param_list d) (req_cookie (ss_request ss)) (ss_profile ss)) (\<lambda>(_, profile).
          let target = req_target (ss_request ss);
              location = match_route (ss_routes ss) target
          in case ss_routes ss location of
            None \<Rightarrow> Inl Undefined_behaviour
          | Some f \<Rightarrow>
              ebind (create (d_fs d) cfg f location target profile st) (\<lambda>(h, st1).
              ebind (write_to_socket d sk h (ss\<lparr>ss_profile := profile\<rparr>) st1) (\<lambda>ro.
                Inr (ro\<lparr>ro_log := log_info ss ''handle_read'' ''request parser valid'' # ro_log ro\<rparr>))))
      else Inr \<lparr>ro_session = ss\<lparr>ss_phase := Deleted\<rparr>, ro_response = None, ro_state = st,
        ro_log = [log_error ss ''handle_read'' ''request parser invalid'']\<rparr>)"

section \<open>The accept loop\<close>

record ('w, 'm) run =
  sessions :: "session list"
  sv :: "('w, 'm) server_state"
  run_log :: log_lines
  crashed :: "cpp_error option"

text \<open>\<^verbatim>\<open>start_accept\<close> allocates a session, hands it the routes and waits; \<^verbatim>\<open>handle_accept\<close> calls it again.\<close>

definition start_accept :: "routes \<Rightarrow> ('w, 'm) run \<Rightarrow> ('w, 'm) run" where
  "start_accept rs r = r\<lparr>sessions := sessions r @ [set_routes rs get_session]\<rparr>"

definition handle_accept :: "routes \<Rightarrow> bool \<Rightarrow> string option \<Rightarrow> nat \<Rightarrow> ('w, 'm) run \<Rightarrow> ('w, 'm) run" where
  "handle_accept rs error remote_ep i r =
     start_accept rs
       (if \<not> error then
          (case start remote_ep (sessions r ! i) of (ss, lg) \<Rightarrow>
            r\<lparr>sessions := (sessions r)[i := ss], run_log := run_log r @ lg\<rparr>)
        else r\<lparr>sessions := (sessions r)[i := (sessions r ! i)\<lparr>ss_phase := Deleted\<rparr>]\<rparr>)"

text \<open>
  The events of a run, one at a time: the completion of an accept or of a read, with or
  without an error; a completed read has put the request into the session. A crash ends the
  run.
\<close>

inductive server_step :: "('w, 'm) deps \<Rightarrow> NginxConfig \<Rightarrow> routes \<Rightarrow> ('w, 'm) run \<Rightarrow> ('w, 'm) run \<Rightarrow> bool"
  for d cfg rs where
  accepted: "crashed r = None \<Longrightarrow> i < length (sessions r) \<Longrightarrow> ss_phase (sessions r ! i) = Accepting \<Longrightarrow>
    server_step d cfg rs r (handle_accept rs error remote_ep i r)"
| read_done: "crashed r = None \<Longrightarrow> i < length (sessions r) \<Longrightarrow> ss_phase (sessions r ! i) = Reading \<Longrightarrow>
    handle_read d cfg error sk (set_request req (sessions r ! i)) (sv r) = Inr ro \<Longrightarrow>
    server_step d cfg rs r
      (r\<lparr>sessions := (sessions r)[i := ro_session ro], sv := ro_state ro, run_log := run_log r @ ro_log ro\<rparr>)"
| read_thrown: "crashed r = None \<Longrightarrow> i < length (sessions r) \<Longrightarrow> ss_phase (sessions r ! i) = Reading \<Longrightarrow>
    handle_read d cfg error sk (set_request req (sessions r ! i)) (sv r) = Inl e \<Longrightarrow>
    server_step d cfg rs r (r\<lparr>crashed := Some e\<rparr>)"

inductive_cases server_stepE: "server_step d cfg rs r r'"

definition first_run :: "routes \<Rightarrow> ('w, 'm) server_state \<Rightarrow> ('w, 'm) run" where
  "first_run rs st = start_accept rs \<lparr>sessions = [], sv = st, run_log = [], crashed = None\<rparr>"

definition reachable :: "('w, 'm) deps \<Rightarrow> NginxConfig \<Rightarrow> routes \<Rightarrow> ('w, 'm) server_state \<Rightarrow> ('w, 'm) run \<Rightarrow> bool" where
  "reachable d cfg rs st r \<longleftrightarrow> (server_step d cfg rs)\<^sup>*\<^sup>* (first_run rs st) r"

section \<open>Lemmas\<close>

lemma session_ops_simps [simp]:
  "ss_request (set_request req ss) = req" "ss_phase (set_request req ss) = ss_phase ss"
  "ss_routes (set_request req ss) = ss_routes ss" "ss_profile (set_request req ss) = ss_profile ss"
  "ss_dest_ip (set_request req ss) = ss_dest_ip ss"
  "ss_routes (set_routes rs ss) = rs" "ss_phase (set_routes rs ss) = ss_phase ss"
  "ss_profile (set_routes rs ss) = ss_profile ss"
  "ss_phase new_session = Accepting" "ss_profile new_session = initial_profile"
  by (simp_all add: set_request_def set_routes_def new_session_def)

text \<open>Case analysis on what a read that returns has done.\<close>

lemma write_to_socketE:
  assumes "write_to_socket d sk h ss st = Inr ro"
  obtains (gone) "\<not> peer_ok sk" and "ro_session ro = ss\<lparr>ss_phase := Unclosed\<rparr>" and "ro_response ro = None"
      and "ro_state ro = st"
  | (written) out where "peer_ok sk" and "write_ok sk"
      and "run_handler (d_fs d) (d_sha256 d) (d_smtp d) (d_serialize d) h st (ss_request ss) new_response = Inr out"
      and "ro_session ro = ss\<lparr>ss_phase := Closed\<rparr>" and "ro_response ro = Some (out_res out)"
      and "ro_state ro = out_state out"
      and "ro_log ro = map (Pair Info) (out_log out) @ [log_info ss ''handle_write'' ''connection closed successfully'']"
  using assms by (auto simp: write_to_socket_def handle_write_def elim!: result_elims split: if_splits)

lemma handle_readE:
  assumes "handle_read d cfg error sk ss st = Inr ro"
  obtains (failed) error and "ro_session ro = ss\<lparr>ss_phase := Deleted\<rparr>" and "ro_response ro = None"
      and "ro_state ro = st"
  | (served) b profile f h st1 ro1 where "\<not> error"
      and "update_user (d_param_list d) (req_cookie (ss_request ss)) (ss_profile ss) = Inr (b, profile)"
      and "ss_routes ss (match_route (ss_routes ss) (req_target (ss_request ss))) = Some f"
      and "create (d_fs d) cfg f (match_route (ss_routes ss) (req_target (ss_request ss)))
        (req_target (ss_request ss)) profile st = Inr (h, st1)"
      and "write_to_socket d sk h (ss\<lparr>ss_profile := profile\<rparr>) st1 = Inr ro1"
      and "ro = ro1\<lparr>ro_log := log_info ss ''handle_read'' ''request parser valid'' # ro_log ro1\<rparr>"
  using assms by (auto simp: handle_read_def Let_def elim!: result_elims split: if_splits option.splits)

lemma ro_session_final:
  assumes "handle_read d cfg error sk ss st = Inr ro"
  shows "ss_phase (ro_session ro) \<in> {Closed, Unclosed, Deleted}" and "ss_routes (ro_session ro) = ss_routes ss"
proof -
  have "ss_phase (ro_session ro) \<in> {Closed, Unclosed, Deleted} \<and> ss_routes (ro_session ro) = ss_routes ss"
    using assms by (cases rule: handle_readE) (auto elim: write_to_socketE)
  then show "ss_phase (ro_session ro) \<in> {Closed, Unclosed, Deleted}" "ss_routes (ro_session ro) = ss_routes ss" by auto
qed

lemma handle_read_framed:
  assumes "handle_read d cfg error sk ss st = Inr ro" and "ro_response ro = Some res"
  shows "framed res"
  using assms(1)
proof (cases rule: handle_readE)
  case (served b profile f h st1 ro1)
  from served(5) show ?thesis
    by (cases rule: write_to_socketE) (use served(6) assms(2) in \<open>auto dest: dispatch.served_framed\<close>)
qed (use assms(2) in simp)

lemma handle_accept_simps:
  "sessions (handle_accept rs error ep i r) =
     (sessions r)[i := if \<not> error then fst (start ep (sessions r ! i)) else (sessions r ! i)\<lparr>ss_phase := Deleted\<rparr>] @
     [set_routes rs get_session]"
  "sv (handle_accept rs error ep i r) = sv r" "crashed (handle_accept rs error ep i r) = crashed r"
  by (simp_all add: handle_accept_def start_accept_def split: prod.split)

lemma start_simps [simp]:
  "ss_phase (fst (start ep ss)) = Reading" "ss_routes (fst (start ep ss)) = ss_routes ss"
  "ss_profile (fst (start ep ss)) = ss_profile ss"
  by (simp_all add: start_def Let_def)

text \<open>The sessions that wait for a connection.\<close>

definition accepting :: "('w, 'm) run \<Rightarrow> nat" where
  "accepting r = length (filter (\<lambda>ss. ss_phase ss = Accepting) (sessions r))"

lemma length_filter_update:
  "i < length xs \<Longrightarrow> P (xs ! i) \<Longrightarrow> \<not> P y \<Longrightarrow> Suc (length (filter P (xs[i := y]))) = length (filter P xs)"
  "i < length xs \<Longrightarrow> \<not> P (xs ! i) \<Longrightarrow> \<not> P y \<Longrightarrow> length (filter P (xs[i := y])) = length (filter P xs)"
proof (induction xs arbitrary: i)
  case (Cons z xs)
  { case 1 then show ?case using Cons.IH(1) by (cases i) auto }
  { case 2 then show ?case using Cons.IH(2) by (cases i) auto }
qed simp_all

lemma step_accepting:
  assumes "server_step d cfg rs r r'"
  shows "accepting r' = accepting r"
  using assms
proof cases
  case (accepted i error ep)
  then show ?thesis
    using length_filter_update(1) [of i "sessions r" "\<lambda>ss. ss_phase ss = Accepting"
      "if \<not> error then fst (start ep (sessions r ! i)) else (sessions r ! i)\<lparr>ss_phase := Deleted\<rparr>"]
    by (simp add: accepting_def handle_accept_simps)
next
  case (read_done i error sk req ro)
  then have "ss_phase (ro_session ro) \<noteq> Accepting" using ro_session_final(1) [OF read_done(5)] by auto
  with read_done show ?thesis by (simp add: accepting_def length_filter_update(2))
qed (simp add: accepting_def)

lemma step_keeps_closed:
  assumes "server_step d cfg rs r r'" and "i < length (sessions r)"
    and "ss_phase (sessions r ! i) \<in> {Closed, Unclosed, Deleted}"
  shows "i < length (sessions r') \<and> sessions r' ! i = sessions r ! i"
  using assms(1)
proof cases
  case (accepted j error ep)
  with assms(2,3) show ?thesis by (cases "i = j") (auto simp: handle_accept_simps nth_append)
next
  case (read_done j error sk req ro)
  with assms(2,3) show ?thesis by (cases "i = j") auto
qed (use assms(2) in simp_all)

text \<open>
  What holds of every session of a run: it has the routes of the server and, until its read
  completes, the profile of a client that is not logged in.
\<close>

definition session_ok :: "routes \<Rightarrow> session \<Rightarrow> bool" where
  "session_ok rs ss \<longleftrightarrow> ss_routes ss = rs \<and>
     (ss_phase ss = Accepting \<or> ss_phase ss = Reading \<longrightarrow> ss_profile ss = initial_profile)"

lemma step_sessions_ok:
  assumes "server_step d cfg rs r r'" and "\<forall>ss \<in> set (sessions r). session_ok rs ss"
  shows "\<forall>ss \<in> set (sessions r'). session_ok rs ss"
proof -
  have upd: "\<forall>ss \<in> set (xs[i := x]). Q ss" if "\<forall>ss \<in> set xs. Q ss" "Q x" for xs i x and Q :: "session \<Rightarrow> bool"
    using that set_update_subset_insert [of xs i x] by blast
  from assms(1) show ?thesis
  proof cases
    case (accepted i error ep)
    then have "session_ok rs (sessions r ! i)" using assms(2) by simp
    then have "session_ok rs (if \<not> error then fst (start ep (sessions r ! i)) else (sessions r ! i)\<lparr>ss_phase := Deleted\<rparr>)"
      using accepted by (simp add: session_ok_def)
    from upd [where Q = "session_ok rs", OF assms(2) this] show ?thesis
      using accepted by (simp add: handle_accept_simps session_ok_def)
  next
    case (read_done i error sk req ro)
    then have "session_ok rs (sessions r ! i)" using assms(2) by simp
    then have "session_ok rs (ro_session ro)"
      using ro_session_final [OF read_done(5)] by (auto simp: session_ok_def)
    from upd [where Q = "session_ok rs", OF assms(2) this] show ?thesis using read_done by simp
  qed (use assms(2) in simp)
qed

lemma reachable_induct [consumes 1, case_names first step]:
  assumes "reachable d cfg rs st r" and "P (first_run rs st)"
    and "\<And>r r'. reachable d cfg rs st r \<Longrightarrow> server_step d cfg rs r r' \<Longrightarrow> P r \<Longrightarrow> P r'"
  shows "P r"
  using assms unfolding reachable_def by (induction rule: rtranclp_induct) auto

lemma reachable_sessions_ok: "reachable d cfg rs st r \<Longrightarrow> \<forall>ss \<in> set (sessions r). session_ok rs ss"
proof (induction rule: reachable_induct)
  case first
  then show ?case by (simp add: first_run_def start_accept_def session_ok_def)
next
  case (step r r')
  then show ?case by (blast dest: step_sessions_ok)
qed

lemma reachable_accepting: "reachable d cfg rs st r \<Longrightarrow> accepting r = 1"
proof (induction rule: reachable_induct)
  case first
  then show ?case by (simp add: accepting_def first_run_def start_accept_def)
next
  case (step r r')
  then show ?case by (simp add: step_accepting)
qed

lemma crashed_is_final: "crashed r = Some e \<Longrightarrow> \<not> server_step d cfg rs r r'"
  by (auto elim: server_stepE)

lemma user_loop_absent:
  "''crazyCode'' \<notin> fst ` set ps \<Longrightarrow> user_loop ps user = Inr (False, user)"
  by (induction ps user rule: user_loop.induct) auto

lemma create_world: "create fs cfg f loc url p st = Inr (h, st') \<Longrightarrow> sv_world st' = sv_world st"
  by (cases f) (auto simp: ebind_eq_Inr_iff Let_def)

text \<open>A handler of an API route works for the profile it was created with.\<close>

lemma create_profile:
  "create fs cfg f loc url p st = Inr (H_api l h, st') \<Longrightarrow> api_profile h = p"
  by (cases f) (auto simp: ebind_eq_Inr_iff Let_def)

lemma create_not_auth:
  "create fs cfg f loc url p st = Inr (H_auth h, st') \<Longrightarrow> f = Auth_factory"
  by (cases f) (auto simp: ebind_eq_Inr_iff Let_def)

lemma run_handler_world:
  assumes r: "run_handler fs sha256 smtp ser h st req res = Inr out"
    and api: "\<forall>l a. h = H_api l a \<longrightarrow> \<not> login_status (api_profile a)"
    and auth: "\<forall>a. h \<noteq> H_auth a"
  shows "sv_world (out_state out) = sv_world st"
proof (cases h)
  case (H_api l a)
  with r obtain o1 where "api_handle_request fs a \<lparr>world = sv_world st, path_counts = sv_counts st l\<rparr> req res = Inr o1"
    and out: "sv_world (out_state out) = world (out_state o1)"
    by (auto simp: embed_def ebind_eq_Inr_iff)
  from api_unchanged [OF this(1)] api H_api out show ?thesis by simp
next
  case (H_static a)
  with r show ?thesis
    by (auto simp: embed_def static_handle_request_def Let_def elim!: result_elims split: if_splits option.splits)
next
  case (H_console a)
  with r show ?thesis by (auto simp: embed_def console_handle_request_def elim!: result_elims split: if_splits)
next
  case (H_sleep a)
  with r show ?thesis by (auto simp: embed_def sleep_handle_request_def)
qed (use r auth in \<open>auto simp: echo_handle_request_def health_handle_request_def not_found_handle_request_def
    Let_def split: if_splits\<close>)

section \<open>Properties\<close>

text \<open>
  C6. A client without the login cookie changes no file: whatever it requests, unless
  the route is an authentication location, the file system is the same after the request.
\<close>

theorem anonymous_changes_nothing:
  assumes read: "handle_read d cfg error sk ss st = Inr ro" and new: "ss_profile ss = initial_profile"
    and anon: "''crazyCode'' \<notin> fst ` set (d_param_list d ('';'' @ req_cookie (ss_request ss)))"
    and route: "ss_routes ss (match_route (ss_routes ss) (req_target (ss_request ss))) \<noteq> Some Auth_factory"
  shows "sv_world (ro_state ro) = sv_world st"
  using read
proof (cases rule: handle_readE)
  case (served b profile f h st1 ro1)
  have "update_user (d_param_list d) (req_cookie (ss_request ss)) initial_profile = Inr (False, initial_profile)"
    unfolding update_user_def using anon by (rule user_loop_absent)
  with served(2) new have "profile = initial_profile" by simp
  then have "\<forall>l a. h = H_api l a \<longrightarrow> \<not> login_status (api_profile a)"
    using create_profile served(4) by (fastforce simp: initial_profile_def)
  moreover have "\<forall>a. h \<noteq> H_auth a" using create_not_auth served(3,4) route by fastforce
  ultimately have "sv_world (ro_state ro1) = sv_world st1"
    using run_handler_world by (cases rule: write_to_socketE [OF served(5)]) auto
  with create_world [OF served(4)] served(6) show ?thesis by simp
qed simp

text \<open>
  C33. Every response that leaves the server is framed: its Content-Length, if it has
  one, is the size of its body, for every handler and every request.
\<close>

theorem responses_framed:
  assumes "handle_read d cfg error sk ss st = Inr ro" and "ro_response ro = Some res"
  shows "case res_content_length res of None \<Rightarrow> True | Some n \<Rightarrow> n = length (res_body res)"
  using handle_read_framed [OF assms] by (simp add: framed_def)

text \<open>
  C16. The server never stops accepting: in every reachable state of a run exactly one
  session is waiting for a connection.
\<close>

theorem one_pending_accept:
  assumes "reachable d cfg rs st r"
  shows "length (filter (\<lambda>ss. ss_phase ss = Accepting) (sessions r)) = 1"
  using reachable_accepting [OF assms] by (simp add: accepting_def)

text \<open>
  C22. Sessions share nothing but the server's routes: in every reachable state each session has
  these, and one that has not yet read its request has the profile of a client that is not
  logged in. So the user of a request comes from the Cookie field of this request alone.
\<close>

theorem sessions_isolated:
  assumes "reachable d cfg rs st r" and "ss \<in> set (sessions r)"
  shows "ss_routes ss = rs \<and> (ss_phase ss \<in> {Accepting, Reading} \<longrightarrow> ss_profile ss = initial_profile)"
  using reachable_sessions_ok [OF assms(1)] assms(2) by (auto simp: session_ok_def)

text \<open>
  A session that answered its request is never deleted: once it is closed it stays
  allocated in every later state of the run (its memory is not reclaimed).
\<close>

theorem closed_sessions_stay:
  assumes "(server_step d cfg rs)\<^sup>*\<^sup>* r r'" and "i < length (sessions r)" and "ss_phase (sessions r ! i) = Closed"
  shows "i < length (sessions r') \<and> sessions r' ! i = sessions r ! i"
  using assms(1)
proof (induction rule: rtranclp_induct)
  case (step r1 r2)
  with step_keeps_closed [OF step.hyps(2), of i] assms(3) show ?case by auto
qed (use assms(2) in simp)

text \<open>The bytes that may stand in a quoted value of a cookie.\<close>

definition quotable :: "char \<Rightarrow> bool" where
  "quotable c \<longleftrightarrow> (let n = of_char c :: nat in
     n = 9 \<or> 32 \<le> n \<and> n \<noteq> 34 \<and> n \<noteq> 92 \<and> n \<noteq> 127)"

text \<open>What is relied on of \<^verbatim>\<open>param_list\<close>: a single quoted parameter is returned without its quotes.\<close>

definition param_list_ok :: "(string \<Rightarrow> (string \<times> string) list) \<Rightarrow> bool" where
  "param_list_ok pl \<longleftrightarrow> (\<forall>v. (\<forall>c \<in> set v. quotable c) \<longrightarrow>
     pl ('';crazyCode='' @ [CHR 0x22] @ v @ [CHR 0x22]) = [(''crazyCode'', v)])"

lemma cookie_profile:
  assumes pl: "param_list_ok pl" and i: "in_int i"
    and bars: "CHR ''|'' \<notin> set name" "CHR ''|'' \<notin> set e" "e \<noteq> []"
    and chars: "\<forall>c \<in> set name \<union> set e. quotable c"
  shows "update_user pl (''crazyCode='' @ cookie_text i name e) user =
     Inr (True, user\<lparr>user_id := i, username := name, email := e, login_status := True\<rparr>)"
proof -
  let ?v = "to_string i @ ''|'' @ name @ ''|'' @ e"
  have "quotable c" if "c \<in> set (to_string i)" for c
    using to_string_chars [OF that] by (auto simp: quotable_def is_digit_def Let_def)
  then have "\<forall>c \<in> set ?v. quotable c" using chars by (auto simp: quotable_def Let_def)
  with pl have "pl ('';crazyCode='' @ [CHR 0x22] @ ?v @ [CHR 0x22]) = [(''crazyCode'', ?v)]"
    unfolding param_list_ok_def by blast
  moreover have "split_fields ?v = [to_string i, name, e]"
    using bars by (intro split_fields_three) (simp_all add: to_string_no_bar)
  ultimately show ?thesis using i by (simp add: update_user_def cookie_text_def)
qed



text \<open>
  C27. A path whose state cannot be determined ends the process, too: \<^verbatim>\<open>exists\<close> without an error
  code throws, for instance for a name that is too long, and nothing catches it. In every
  reachable state a client that is not logged in can do this with one GET of an item below an
  API location.
\<close>

theorem throwing_query_crashes:
  fixes req :: request
  assumes reach: "reachable d cfg rs st r"
    and i: "crashed r = None" "i < length (sessions r)" "ss_phase (sessions r ! i) = Reading"
    and req: "req_method req = Verb_get" "req_target req = ''/api/'' @ p" "CHR ''/'' \<in> set p"
    and anon: "''crazyCode'' \<notin> fst ` set (d_param_list d ('';'' @ req_cookie req))"
    and route: "match_route rs (req_target req) = loc" "rs loc = Some Api_factory"
    and load: "api_load (d_fs d) (get_root cfg loc) \<lparr>world = sv_world (sv r), path_counts = sv_counts (sv r) loc\<rparr> = Inr s1"
    and throws: "fs_exists (d_fs d) (sv_world (sv r)) (get_root cfg loc @ ''/'' @ p) = Inl e"
  shows "server_step d cfg rs r (r\<lparr>crashed := Some e\<rparr>)"
proof (rule read_thrown [OF i])
  let ?ss = "sessions r ! i"
  let ?h = "\<lparr>api_location = loc, api_root = get_root cfg loc, api_url = req_target req, api_profile = initial_profile\<rparr>"
  have ss: "ss_routes ?ss = rs" "ss_profile ?ss = initial_profile"
    using reachable_sessions_ok [OF reach] i by (auto simp: session_ok_def)
  have u: "update_user (d_param_list d) (req_cookie req) initial_profile = Inr (False, initial_profile)"
    unfolding update_user_def using anon by (rule user_loop_absent)
  have w: "world s1 = sv_world (sv r)" using load by (elim api_loadE) simp
  have "req_target req \<noteq> ''/api/''" "drop 5 (req_target req) = p" "take 5 (req_target req) = ''/api/''"
    "find_char CHR ''/'' p \<noteq> None"
    using req by (auto simp: find_char_None_iff)
  then have "api_handle_request (d_fs d) ?h s1 req new_response = Inl e"
    using req(1) throws w by (simp add: api_handle_request_def Let_def handle_get_def)
  moreover have "\<lparr>world = sv_world (sv r), path_counts = path_counts s1\<rparr> = s1" using w by simp
  ultimately show "handle_read d cfg False \<lparr>peer_ok = True, peer_error = [], write_ok = True\<rparr>
      (set_request req ?ss) (sv r) = Inl e"
    using ss u route load by (simp add: handle_read_def Let_def write_to_socket_def embed_def)
qed

section \<open>Instances\<close>

definition demo_param_list :: "string \<Rightarrow> (string \<times> string) list" where
  "demo_param_list s =
     (if take 12 s = '';crazyCode='' @ [CHR 0x22] \<and> length s > 12 \<and> last s = CHR 0x22
      then [(''crazyCode'', butlast (drop 12 s))] else [])"

lemma demo_param_list_ok: "param_list_ok demo_param_list"
  by (simp add: param_list_ok_def demo_param_list_def)

definition demo_deps :: "(mem_world, (string \<times> string) list) deps" where
  "demo_deps = \<lparr>d_fs = mem_fs, d_sha256 = demo_sha256, d_smtp = list_smtp, d_serialize = req_body,
     d_param_list = demo_param_list\<rparr>"

definition demo_server_state :: "(mem_world, (string \<times> string) list) server_state" where
  "demo_server_state = \<lparr>sv_world = [], sv_mail = [], sv_clock = 0, sv_counts = (\<lambda>_. Map.empty)\<rparr>"

definition demo_routes_table :: routes where
  "demo_routes_table = [''/health'' \<mapsto> Health_factory, ''/'' \<mapsto> Factory_404]"

definition demo_request :: "string \<Rightarrow> string \<Rightarrow> request" where
  "demo_request target cookie =
     \<lparr>req_method = Verb_get, req_target = target, req_cookie = cookie, req_body = []\<rparr>"

definition demo_session :: "routes \<Rightarrow> request \<Rightarrow> session" where
  "demo_session rs req = set_request req (set_routes rs get_session)"

definition demo_answer :: "(mem_world, (string \<times> string) list) read_outcome" where
  "demo_answer =
     (let ss = demo_session demo_routes_table (demo_request ''/health/'' []) in
      \<lparr>ro_session = ss\<lparr>ss_phase := Closed\<rparr>, ro_response = Some (finish Status_ok ''OK'' ''text/plain'' new_response),
       ro_state = demo_server_state,
       ro_log = [log_info ss ''handle_read'' ''request parser valid'',
         (Info, metrics_line ''200'' ''/health/'' ''health handler''),
         log_info ss ''handle_write'' ''connection closed successfully'']\<rparr>)"

definition demo_sock :: sock where
  "demo_sock = \<lparr>peer_ok = True, peer_error = [], write_ok = True\<rparr>"

lemma demo_read:
  "handle_read demo_deps demo_config False demo_sock
     (demo_session demo_routes_table (demo_request ''/health/'' [])) demo_server_state = Inr demo_answer"
proof -
  have m: "match_route demo_routes_table ''/health/'' = ''/health''"
    by (simp add: match_route_def match_loop.simps demo_routes_table_def)
  have t: "trim_slashes ''/health/'' = ''/health''" by code_simp
  have r: "demo_routes_table ''/health'' = Some Health_factory" by (simp add: demo_routes_table_def)
  show ?thesis
    by (simp add: handle_read_def demo_session_def demo_deps_def demo_request_def update_user_def demo_param_list_def m r)
      (simp add: write_to_socket_def health_handle_request_def t handle_write_def
        demo_answer_def demo_sock_def demo_session_def demo_request_def Let_def set_request_def set_routes_def
        new_session_def log_info_def session_line_def)
qed

lemma anonymous_changes_nothing_witness:
  "sv_world (ro_state demo_answer) = sv_world demo_server_state"
  by (rule anonymous_changes_nothing [OF demo_read])
    (simp_all add: demo_session_def demo_deps_def demo_param_list_def demo_request_def match_route_def
      match_loop.simps demo_routes_table_def)

lemma responses_framed_witness:
  "case res_content_length (finish Status_ok ''OK'' ''text/plain'' new_response) of
     None \<Rightarrow> True | Some n \<Rightarrow> n = length (res_body (finish Status_ok ''OK'' ''text/plain'' new_response))"
  by (rule responses_framed [OF demo_read]) (simp add: demo_answer_def Let_def)

definition demo_run :: "(mem_world, (string \<times> string) list) run" where
  "demo_run = handle_accept demo_routes_table False None 0 (first_run demo_routes_table demo_server_state)"

lemma demo_run_reachable: "reachable demo_deps demo_config demo_routes_table demo_server_state demo_run"
  unfolding reachable_def demo_run_def
  by (intro r_into_rtranclp accepted) (simp_all add: first_run_def start_accept_def)

lemma demo_run_sessions:
  "sessions demo_run = [fst (start None (set_routes demo_routes_table get_session)), set_routes demo_routes_table get_session]"
  by (simp add: demo_run_def handle_accept_simps first_run_def start_accept_def)

lemma one_pending_accept_witness:
  "length (filter (\<lambda>ss. ss_phase ss = Accepting) (sessions demo_run)) = 1"
  by (rule one_pending_accept [OF demo_run_reachable])

lemma sessions_isolated_witness:
  "ss_routes (sessions demo_run ! 0) = demo_routes_table \<and> ss_profile (sessions demo_run ! 0) = initial_profile"
  using sessions_isolated [OF demo_run_reachable, of "sessions demo_run ! 0"]
  by (simp add: demo_run_sessions)

definition demo_closed :: "(mem_world, (string \<times> string) list) run" where
  "demo_closed = \<lparr>sessions = [get_session, get_session\<lparr>ss_phase := Closed\<rparr>], sv = demo_server_state,
     run_log = [], crashed = None\<rparr>"

lemma closed_sessions_stay_witness:
  "1 < length (sessions (handle_accept demo_routes_table False None 0 demo_closed)) \<and>
   sessions (handle_accept demo_routes_table False None 0 demo_closed) ! 1 = sessions demo_closed ! 1"
proof (rule closed_sessions_stay)
  show "(server_step demo_deps demo_config demo_routes_table)\<^sup>*\<^sup>* demo_closed
      (handle_accept demo_routes_table False None 0 demo_closed)"
    by (intro r_into_rtranclp accepted) (simp_all add: demo_closed_def)
qed (simp_all add: demo_closed_def)



text \<open>A file system in memory in which a name may have at most 255 characters.\<close>

definition short_fs :: "mem_world fs_ops" where
  "short_fs = mem_fs\<lparr>fs_exists := (\<lambda>w p. if length p > 255 then Inl Filesystem_error else fs_exists mem_fs w p)\<rparr>"

definition short_state :: "(mem_world, (string \<times> string) list) server_state" where
  "short_state = demo_server_state\<lparr>sv_world := [(''r'', Dir)]\<rparr>"

definition short_routes :: routes where
  "short_routes = [''/api'' \<mapsto> Api_factory, ''/'' \<mapsto> Factory_404]"

definition short_config :: NginxConfig where
  "short_config = \<lparr>statements = [], paths = [new_path\<lparr>p_type := Ep_api, p_endpoint := ''/api'', p_root := ''r''\<rparr>]\<rparr>"

lemma throwing_query_crashes_witness:
  "\<exists>r r'. reachable (demo_deps\<lparr>d_fs := short_fs\<rparr>) short_config short_routes short_state r \<and>
     server_step (demo_deps\<lparr>d_fs := short_fs\<rparr>) short_config short_routes r r' \<and> crashed r' = Some Filesystem_error"
proof -
  let ?d = "demo_deps\<lparr>d_fs := short_fs\<rparr>"
  define r where "r = handle_accept short_routes False None 0 (first_run short_routes short_state)"
  define long where "long = replicate 300 CHR ''x''"
  have reach: "reachable ?d short_config short_routes short_state r"
    unfolding reachable_def r_def by (intro r_into_rtranclp accepted) (simp_all add: first_run_def start_accept_def)
  have r: "crashed r = None" "sv r = short_state"
    "sessions r = [fst (start None (set_routes short_routes get_session)), set_routes short_routes get_session]"
    by (simp_all add: r_def handle_accept_simps first_run_def start_accept_def)
  have rf: "rfind_char CHR ''/'' (''/api/S'' @ CHR ''/'' # long) = Some 6"
    by (subst rfind_char_append_notin) (simp_all add: long_def)
  have "match_loop short_routes (''/api/S'' @ CHR ''/'' # long) = match_loop short_routes ''/api/S''"
    by (subst match_loop.simps) (subst rf, simp add: short_routes_def long_def)
  then have m: "match_route short_routes (''/api/'' @ ''S/'' @ long) = ''/api''"
    by (simp add: match_route_def match_loop.simps [of _ "''/api/S''"] match_loop.simps [of _ "''/api''"] short_routes_def)
  have "server_step ?d short_config short_routes r (r\<lparr>crashed := Some Filesystem_error\<rparr>)"
    using m
    by (intro throwing_query_crashes [OF reach r(1), where i = 0 and req = "demo_request (''/api/'' @ ''S/'' @ long) []"
        and p = "''S/'' @ long" and loc = "''/api''" and ?s1.0 = "\<lparr>world = [(''r'', Dir)], path_counts = Map.empty\<rparr>"])
      (simp_all add: r demo_request_def demo_deps_def demo_param_list_def short_routes_def short_config_def
        get_root_def short_fs_def short_state_def demo_server_state_def api_load_def mem_fs_def long_def)
  with reach show ?thesis by (intro exI [of _ r] exI [of _ "r\<lparr>crashed := Some Filesystem_error\<rparr>"] conjI) simp_all
qed

end
