(* ===== verification/Server_Main.thy ===== *)
theory Server_Main
  imports Session "HOL-Library.Word"
begin

text \<open>
  The program around the server (\<^verbatim>\<open>src/src/server_main.cc\<close>): start-up from the command
  line and the config file, the conversion of the port to the \<^verbatim>\<open>short\<close> parameter of the
  server's constructor, and the timer that limits the number of log files.
\<close>

section \<open>The port\<close>

text \<open>
  The \<^verbatim>\<open>int\<close> of \<^verbatim>\<open>get_listen_port\<close> is passed as a \<^verbatim>\<open>short\<close> (16 bits, modulo), which the
  endpoint takes as an \<^verbatim>\<open>unsigned short\<close>.
\<close>

definition to_short :: "int \<Rightarrow> int" where
  "to_short port = sint (word_of_int port :: 16 word)"

definition endpoint_port :: "int \<Rightarrow> int" where
  "endpoint_port s = uint (word_of_int s :: 16 word)"

section \<open>Start-up\<close>

datatype ('w, 'm) main_outcome =
    Exit int
  | Serving int NginxConfig routes "('w, 'm) run"
  | Undefined

text \<open>
  The config file as a stream, \<open>None\<close> when it cannot be opened: a directory can be opened and
  reads as empty.
\<close>

definition config_stream :: "'w fs_ops \<Rightarrow> 'w \<Rightarrow> string \<Rightarrow> string option" where
  "config_stream fs w file_name =
     (if fs_is_directory fs w file_name = Inr True then Some [] else fs_read fs w file_name)"

text \<open>
  \<^verbatim>\<open>main\<close> up to the threads. The file system gives the content of the config file;
  \<open>bind_ok\<close> says that the acceptor can be bound, \<open>num_threads\<close> is what
  \<^verbatim>\<open>hardware_concurrency\<close> returns (0 when the number is not known): with no thread to join,
  \<^verbatim>\<open>main\<close> returns at once. The handler for \<^verbatim>\<open>std::exception\<close> logs and falls through to
  \<^verbatim>\<open>return 0\<close>.
\<close>

definition start_server ::
  "'w fs_ops \<Rightarrow> bool \<Rightarrow> nat \<Rightarrow> 'm \<Rightarrow> 'w \<Rightarrow> string \<Rightarrow> ('w, 'm) main_outcome result" where
  "start_server fs bind_ok num_threads mail w file_name =
     ebind (Parse_file (config_stream fs w file_name) []) (\<lambda>(config_is_valid, ss).
       if \<not> config_is_valid then Inr (Exit (-1))
       else
         ebind (get_listen_port ss) (\<lambda>port.
         ebind (get_listen_port ss) (\<lambda>port'.
         if \<not> bind_ok then Inl System_error
         else
           ebind (init_server fs \<lparr>statements = ss, paths = []\<rparr> Map.empty w) (\<lambda>(cfg, rs, w').
             Inr (if num_threads = 0 then Exit 0
             else Serving (endpoint_port (to_short port')) cfg rs
               (first_run rs \<lparr>sv_world = w', sv_mail = mail, sv_clock = 0, sv_counts = (\<lambda>_. Map.empty)\<rparr>))))))"

definition main ::
  "'w fs_ops \<Rightarrow> bool \<Rightarrow> nat \<Rightarrow> 'm \<Rightarrow> 'w \<Rightarrow> string list \<Rightarrow> ('w, 'm) main_outcome" where
  "main fs bind_ok num_threads mail w argv =
     (if length argv \<noteq> 2 then Exit (-1)
      else case start_server fs bind_ok num_threads mail w (argv ! 1) of
        Inr out \<Rightarrow> out
      | Inl Undefined_behaviour \<Rightarrow> Undefined
      | Inl _ \<Rightarrow> Exit 0)"

section \<open>Signals and the log library\<close>

text \<open>\<^verbatim>\<open>signal_logger\<close>: the line it logs and the exit code of the process.\<close>

definition signal_logger :: "int \<Rightarrow> (severity \<times> string) \<times> int" where
  "signal_logger signum =
     ((Fatal, ''Received signal '' @ to_string signum @ '', server is shutting down'' @ [CHR 0x0A]), signum)"

text \<open>
  What \<^verbatim>\<open>log_init\<close> passes to the log library: pattern, maximal size, time of rotation and
  format of the files, the same format for the console, and the lowest severity that is kept.
\<close>

record log_sinks =
  ls_file_name :: string
  ls_rotation_size :: int
  ls_rotation_at :: "nat \<times> nat \<times> nat"
  ls_format :: string
  ls_console_format :: string
  ls_min_severity :: severity

definition log_init :: "string \<Rightarrow> string \<Rightarrow> log_sinks" where
  "log_init log_directory log_prefix =
     (let log_format = ''[%TimeStamp%][%ThreadID%][%Severity%]: %Message%'' in
      \<lparr>ls_file_name = log_directory @ log_prefix @ ''%Y%m%d%H%M.log'',
       ls_rotation_size = 10 * 1024 * 1024,
       ls_rotation_at = (0, 0, 0),
       ls_format = log_format,
       ls_console_format = log_format,
       ls_min_severity = Info\<rparr>)"

section \<open>Log files\<close>

text \<open>
  What the directory iterator and the queries tell about an entry: \<^verbatim>\<open>is_regular_file\<close> of its
  status and \<^verbatim>\<open>last_write_time\<close> throw when they cannot tell, \<^verbatim>\<open>remove\<close> throws when the file
  cannot be removed.
\<close>

record log_entry =
  le_path :: string
  le_regular :: "bool result"
  le_name :: string
  le_time :: "int result"
  le_removable :: bool

definition is_log_file :: "string \<Rightarrow> log_entry \<Rightarrow> bool" where
  "is_log_file log_prefix e \<longleftrightarrow> le_regular e = Inr True \<and> prefix log_prefix (le_name e)"

definition write_time :: "log_entry \<Rightarrow> int" where
  "write_time e = (case le_time e of Inl _ \<Rightarrow> 0 | Inr t \<Rightarrow> t)"

definition log_files :: "string \<Rightarrow> log_entry list \<Rightarrow> log_entry list" where
  "log_files log_prefix es = sort_key write_time (filter (is_log_file log_prefix) es)"

text \<open>
  No exception while the list is made and sorted: the iteration asks for the status of every
  entry, the sort for the time of every log file as soon as there are two.
\<close>

definition log_queries_answer :: "string \<Rightarrow> log_entry list \<Rightarrow> bool" where
  "log_queries_answer log_prefix es \<longleftrightarrow> list_all (\<lambda>e. \<not> isl (le_regular e)) es \<and>
     (length (filter (is_log_file log_prefix) es) < 2 \<or>
      list_all (\<lambda>e. \<not> isl (le_time e)) (filter (is_log_file log_prefix) es))"

text \<open>The directory: whether it can be iterated over, and its entries.\<close>

record log_dir =
  ld_readable :: bool
  ld_entries :: "log_entry list"

text \<open>
  One run of \<^verbatim>\<open>check_log_files\<close>: the file it removes, if any, and the directory after it. The
  iterator throws when the directory does not exist; on a timer error nothing is done.
\<close>

definition check_log_files ::
  "bool \<Rightarrow> string \<Rightarrow> nat \<Rightarrow> log_dir \<Rightarrow> (log_entry option \<times> log_dir) result" where
  "check_log_files error log_prefix max_log_files dir =
     (if \<not> error then
        if \<not> ld_readable dir \<or> \<not> log_queries_answer log_prefix (ld_entries dir) then Inl Filesystem_error
        else
          let fs = log_files log_prefix (ld_entries dir) in
          if length fs > max_log_files then
            if \<not> le_removable (hd fs) then Inl Filesystem_error
            else Inr (Some (hd fs), dir\<lparr>ld_entries := filter (\<lambda>e. le_path e \<noteq> le_path (hd fs)) (ld_entries dir)\<rparr>)
          else Inr (None, dir)
      else Inr (None, dir))"

text \<open>
  Successive timer events, one per minute, each after the files that have appeared in the
  directory since the last one.
\<close>

fun log_minutes :: "string \<Rightarrow> nat \<Rightarrow> log_entry list list \<Rightarrow> log_dir \<Rightarrow> log_dir result" where
  "log_minutes log_prefix m [] dir = Inr dir"
| "log_minutes log_prefix m (es # ess) dir =
     ebind (check_log_files False log_prefix m (dir\<lparr>ld_entries := ld_entries dir @ es\<rparr>)) (\<lambda>(_, dir').
       log_minutes log_prefix m ess dir')"

section \<open>Lemmas\<close>

text \<open>Entries about which all queries answer and which can be removed, in a directory that can be read.\<close>

definition entry_ok :: "log_entry \<Rightarrow> bool" where
  "entry_ok e \<longleftrightarrow> \<not> isl (le_regular e) \<and> \<not> isl (le_time e) \<and> le_removable e"

definition log_dir_ok :: "log_dir \<Rightarrow> bool" where
  "log_dir_ok dir \<longleftrightarrow> ld_readable dir \<and> list_all entry_ok (ld_entries dir)"

lemma entries_answer: "list_all entry_ok es \<Longrightarrow> log_queries_answer p es"
  by (auto simp: log_queries_answer_def entry_ok_def list_all_iff)

lemma set_log_files: "set (log_files p es) = {e \<in> set es. is_log_file p e}"
  by (auto simp: log_files_def)

lemma length_log_files: "length (log_files p es) = length (filter (is_log_file p) es)"
  by (simp add: log_files_def)

text \<open>Removing one path from a directory, in which paths are unique, removes one entry.\<close>

lemma length_filter_path:
  assumes "distinct (map le_path es)" and "e \<in> set es" and "P e"
  shows "Suc (length (filter P (filter (\<lambda>x. le_path x \<noteq> le_path e) es))) = length (filter P es)"
  using assms
proof (induction es)
  case (Cons x es)
  show ?case
  proof (cases "x = e")
    case True
    with Cons.prems(1) have "\<forall>y \<in> set es. le_path y \<noteq> le_path e"
      by (metis distinct.simps(2) image_eqI list.simps(9) set_map)
    then have "filter (\<lambda>y. le_path y \<noteq> le_path e) es = es" by (simp add: filter_id_conv)
    with True Cons.prems(3) show ?thesis by simp
  next
    case False
    with Cons have "e \<in> set es" by simp
    moreover from this Cons.prems(1) have "le_path x \<noteq> le_path e" by force
    ultimately show ?thesis using Cons by simp
  qed
qed simp

lemma hd_log_files:
  assumes "m < length (log_files p es)"
  shows "hd (log_files p es) \<in> set es" and "is_log_file p (hd (log_files p es))"
    and "\<forall>e \<in> set es. is_log_file p e \<longrightarrow> write_time (hd (log_files p es)) \<le> write_time e"
proof -
  from assms have ne: "log_files p es \<noteq> []" by auto
  then have "hd (log_files p es) \<in> set (log_files p es)" by simp
  then show "hd (log_files p es) \<in> set es" "is_log_file p (hd (log_files p es))"
    unfolding set_log_files by simp_all
  have "sorted (map write_time (log_files p es))" by (simp add: log_files_def)
  with ne have "\<forall>e \<in> set (log_files p es). write_time (hd (log_files p es)) \<le> write_time e"
    by (cases "log_files p es") auto
  then show "\<forall>e \<in> set es. is_log_file p e \<longrightarrow> write_time (hd (log_files p es)) \<le> write_time e"
    by (simp add: set_log_files)
qed

lemma check_log_files_step:
  assumes "distinct (map le_path (ld_entries dir))" and "log_dir_ok dir"
  obtains x dir' Q where "check_log_files False p m dir = Inr (x, dir')"
    and "ld_entries dir' = filter Q (ld_entries dir)" and "log_dir_ok dir'"
    and "length (log_files p (ld_entries dir')) =
      (if m < length (log_files p (ld_entries dir)) then length (log_files p (ld_entries dir)) - 1
       else length (log_files p (ld_entries dir)))"
proof (cases "m < length (log_files p (ld_entries dir))")
  case True
  note h = hd_log_files(1,2) [OF True]
  let ?h = "hd (log_files p (ld_entries dir))"
  have "entry_ok ?h" using h(1) assms(2) by (simp add: log_dir_ok_def list_all_iff)
  then have "check_log_files False p m dir =
      Inr (Some ?h, dir\<lparr>ld_entries := filter (\<lambda>e. le_path e \<noteq> le_path ?h) (ld_entries dir)\<rparr>)"
    using True assms(2) entries_answer by (simp add: check_log_files_def Let_def log_dir_ok_def entry_ok_def)
  from that [OF this] assms length_filter_path [OF assms(1) h(1), of "is_log_file p", OF h(2)] True show thesis
    by (simp add: length_log_files log_dir_ok_def list_all_iff)
next
  case False
  with that [of None dir "\<lambda>_. True"] assms entries_answer show thesis
    by (simp add: check_log_files_def Let_def log_dir_ok_def)
qed

text \<open>The files of a minute arrive and the timer fires.\<close>

lemma log_minute:
  assumes "distinct (map le_path (ld_entries dir @ es @ rest))" and "log_dir_ok dir" and "list_all entry_ok es"
  obtains x dir' where "check_log_files False p m (dir\<lparr>ld_entries := ld_entries dir @ es\<rparr>) = Inr (x, dir')"
    and "distinct (map le_path (ld_entries dir' @ rest))" and "log_dir_ok dir'"
    and "length (log_files p (ld_entries dir')) =
      (let n = length (log_files p (ld_entries dir)) + length (filter (is_log_file p) es) in if m < n then n - 1 else n)"
proof -
  let ?dir = "dir\<lparr>ld_entries := ld_entries dir @ es\<rparr>"
  have "distinct (map le_path (ld_entries ?dir))" "log_dir_ok ?dir" using assms by (auto simp: log_dir_ok_def)
  then obtain x dir' Q where 1: "check_log_files False p m ?dir = Inr (x, dir')"
    and Q: "ld_entries dir' = filter Q (ld_entries ?dir)" and ok: "log_dir_ok dir'"
    and len: "length (log_files p (ld_entries dir')) = (if m < length (log_files p (ld_entries ?dir))
       then length (log_files p (ld_entries ?dir)) - 1 else length (log_files p (ld_entries ?dir)))"
    by (rule check_log_files_step)
  have "distinct (map le_path (ld_entries dir' @ rest))"
    using assms(1) by (auto simp: Q distinct_map_filter)
  with that [OF 1 _ ok] len show thesis by (simp add: length_log_files Let_def)
qed

lemma short_port:
  assumes "get_listen_port ss = Inr port"
  shows "endpoint_port (to_short port) = port \<and> -32768 \<le> to_short port \<and> to_short port \<le> 32767"
proof -
  from assms have r: "1 \<le> port" "port \<le> 65535"
    by (auto simp: get_listen_port_def ebind_eq_Inr_iff port_range_Inr)
  have "word_of_int (sint (word_of_int port :: 16 word)) = (word_of_int port :: 16 word)" by simp
  then have "endpoint_port (to_short port) = port"
    using r by (simp add: endpoint_port_def to_short_def uint_word_of_int)
  moreover have "-32768 \<le> to_short port \<and> to_short port \<le> 32767"
    using sint_greater_eq [of "word_of_int port :: 16 word"] sint_lt [of "word_of_int port :: 16 word"]
    by (simp add: to_short_def)
  ultimately show ?thesis by simp
qed

section \<open>Properties\<close>

text \<open>
  The port of the config is the port the server listens on: the detour through a
  signed 16-bit parameter is the identity on every port \<^verbatim>\<open>get_listen_port\<close> can return.
\<close>

theorem port_survives_short:
  assumes "get_listen_port ss = Inr port"
  shows "endpoint_port (to_short port) = port \<and> -32768 \<le> to_short port \<and> to_short port \<le> 32767"
  using assms by (rule short_port)

text \<open>
  A timer event removes at most one log file and then an oldest one; other files
  of the directory stay.
\<close>

theorem check_log_files_removes_oldest:
  assumes "check_log_files error p m dir = Inr (Some e, dir')"
  shows "e \<in> set (ld_entries dir) \<and> is_log_file p e \<and> m < length (log_files p (ld_entries dir)) \<and>
    (\<forall>e1 \<in> set (ld_entries dir). is_log_file p e1 \<longrightarrow> write_time e \<le> write_time e1) \<and>
    set (ld_entries dir') = {e1 \<in> set (ld_entries dir). le_path e1 \<noteq> le_path e}"
proof -
  from assms have m: "m < length (log_files p (ld_entries dir))" and e: "e = hd (log_files p (ld_entries dir))"
    and es': "ld_entries dir' = filter (\<lambda>x. le_path x \<noteq> le_path e) (ld_entries dir)"
    by (auto simp: check_log_files_def Let_def split: if_splits)
  from hd_log_files [OF m] m show ?thesis by (auto simp: e es')
qed

text \<open>
  C35. Without new files the number of log files comes down to the maximum: in a directory that
  can be read, where the queries about all entries answer and the files can be removed, after
  \<open>k\<close> timer events it is the old number less \<open>k\<close>, but not below the maximum.
\<close>

theorem log_files_converge:
  assumes "distinct (map le_path (ld_entries dir))" and "log_dir_ok dir"
  shows "\<exists>dir'. log_minutes p m (replicate k []) dir = Inr dir' \<and> length (log_files p (ld_entries dir')) =
    (if length (log_files p (ld_entries dir)) \<le> m then length (log_files p (ld_entries dir))
     else max m (length (log_files p (ld_entries dir)) - k))"
  using assms
proof (induction k arbitrary: dir)
  case (Suc k)
  from Suc.prems have d: "distinct (map le_path (ld_entries dir @ [] @ []))" by simp
  obtain x dir1 where 1: "check_log_files False p m (dir\<lparr>ld_entries := ld_entries dir @ []\<rparr>) = Inr (x, dir1)"
    and ok: "distinct (map le_path (ld_entries dir1 @ []))" "log_dir_ok dir1"
    and len: "length (log_files p (ld_entries dir1)) = (let n = length (log_files p (ld_entries dir)) +
      length (filter (is_log_file p) []) in if m < n then n - 1 else n)"
    by (rule log_minute [OF d Suc.prems(2)]) simp
  from Suc.IH [of dir1] ok 1 len show ?case by (auto simp: max_def Let_def)
qed simp

text \<open>
  C34. As long as no minute brings more than one new log file, after any number of timer events
  there are at most as many log files as the larger of the maximum and the number at the start,
  and at most one more at every moment before the next event. The directory can be read, the
  queries about all entries answer and the files can be removed.
\<close>

theorem log_files_bounded:
  assumes "distinct (map le_path (ld_entries dir @ concat ess))" and "log_dir_ok dir" and "list_all (list_all entry_ok) ess"
    and "list_all (\<lambda>es. length (filter (is_log_file p) es) \<le> 1) (ess @ [es])"
  shows "\<exists>dir'. log_minutes p m ess dir = Inr dir' \<and>
    length (log_files p (ld_entries dir')) \<le> max m (length (log_files p (ld_entries dir))) \<and>
    length (log_files p (ld_entries dir' @ es)) \<le> Suc (max m (length (log_files p (ld_entries dir))))"
  using assms
proof (induction ess arbitrary: dir)
  case Nil
  then show ?case by (simp add: length_log_files)
next
  case (Cons fs ess)
  from Cons.prems(1) have d: "distinct (map le_path (ld_entries dir @ fs @ concat ess))" by simp
  from Cons.prems(3) have fs: "list_all entry_ok fs" by simp
  obtain x dir1 where 1: "check_log_files False p m (dir\<lparr>ld_entries := ld_entries dir @ fs\<rparr>) = Inr (x, dir1)"
    and ok: "distinct (map le_path (ld_entries dir1 @ concat ess))" "log_dir_ok dir1"
    and len: "length (log_files p (ld_entries dir1)) = (let n = length (log_files p (ld_entries dir)) +
      length (filter (is_log_file p) fs) in if m < n then n - 1 else n)" by (rule log_minute [OF d Cons.prems(2) fs])
  have "(let n = a + b in if m < n then n - 1 else n) \<le> max m a" if "b \<le> 1" for a b
    using that by (auto simp: Let_def max_def)
  then have "length (log_files p (ld_entries dir1)) \<le> max m (length (log_files p (ld_entries dir)))"
    unfolding len using Cons.prems(4) by simp
  with Cons.IH [OF ok] Cons.prems(3,4) 1 show ?case by fastforce
qed

text \<open>
  Every file the log library creates with the set-up of \<^verbatim>\<open>log_init\<close> is one that
  \<^verbatim>\<open>check_log_files\<close> counts: its name in the directory starts with the prefix.
\<close>

lemma log_init_files_counted:
  "\<exists>name. ls_file_name (log_init log_directory log_prefix) = log_directory @ name \<and>
     (\<forall>e. le_regular e = Inr True \<longrightarrow> le_name e = name \<longrightarrow> is_log_file log_prefix e)"
  by (auto simp: log_init_def Let_def is_log_file_def)

lemma empty_config: "Parse [] [] = Inr (True, [])"
  by code_simp

text \<open>
  C30. A server that starts has read a valid config from the file named on the command
  line and listens on the port of that config, waits for one connection, and has a factory
  for every url.
\<close>

theorem started_server:
  assumes "main fs bind_ok num_threads mail w argv = Serving port cfg rs r"
  shows "length argv = 2 \<and> bind_ok \<and> 0 < num_threads \<and>
    (\<exists>content ss. fs_read fs w (argv ! 1) = Some content \<and> Parse content [] = Inr (True, ss) \<and>
       get_listen_port ss = Inr port \<and> statements cfg = ss) \<and>
    sessions r = [set_routes rs get_session] \<and> crashed r = None \<and> rs (match_route rs url) \<noteq> None"
proof -
  from assms have a: "length argv = 2"
    and st: "start_server fs bind_ok num_threads mail w (argv ! 1) = Inr (Serving port cfg rs r)"
    by (auto simp: main_def split: if_splits sum.splits cpp_error.splits)
  from st obtain content ss q w' where c: "config_stream fs w (argv ! 1) = Some content"
    and p: "Parse content [] = Inr (True, ss)" and q: "get_listen_port ss = Inr q" and b: bind_ok
    and i: "init_server fs \<lparr>statements = ss, paths = []\<rparr> Map.empty w = Inr (cfg, rs, w')"
    and nt: "0 < num_threads" and port: "port = endpoint_port (to_short q)"
    and r: "r = first_run rs \<lparr>sv_world = w', sv_mail = mail, sv_clock = 0, sv_counts = (\<lambda>_. Map.empty)\<rparr>"
    by (auto simp: start_server_def ebind_eq_Inr_iff Parse_file_def split: if_splits option.splits)
  have "fs_is_directory fs w (argv ! 1) \<noteq> Inr True"
  proof
    assume "fs_is_directory fs w (argv ! 1) = Inr True"
    with c p empty_config have "ss = []" by (simp add: config_stream_def)
    with q show False by (simp add: get_listen_port_def port_range_def)
  qed
  with c have c: "fs_read fs w (argv ! 1) = Some content" by (simp add: config_stream_def)
  have "port = q" using short_port [OF q] port by simp
  moreover have "statements cfg = ss"
    using i by (auto simp: init_server_def get_paths_def elim!: result_elims)
  ultimately show ?thesis
    using a b nt c p q init_server_routed [OF i, of url] by (auto simp: r first_run_def start_accept_def)
qed

section \<open>Instances\<close>

lemma port_survives_short_witness:
  "endpoint_port (to_short 40000) = 40000 \<and> -32768 \<le> to_short 40000 \<and> to_short 40000 \<le> 32767"
proof (rule port_survives_short)
  have "stoi ''40000'' = Inr 40000"
    by (simp add: stoi_def is_space_def is_digit_def digits_val_def digit_val_def in_int_code)
  then show "get_listen_port [Statement [''listen'', ''40000''] None] = Inr 40000"
    by (simp add: get_listen_port_def port_range_def)
qed

definition demo_file :: "string \<Rightarrow> int \<Rightarrow> log_entry" where
  "demo_file name t = \<lparr>le_path = ''log/'' @ name, le_regular = Inr True, le_name = name, le_time = Inr t, le_removable = True\<rparr>"

definition demo_log_dir :: log_dir where
  "demo_log_dir = \<lparr>ld_readable = True,
     ld_entries = [demo_file ''server_log_2'' 20, demo_file ''server_log_1'' 10, demo_file ''other'' 5]\<rparr>"

lemma demo_log_dir_ok: "log_dir_ok demo_log_dir" "distinct (map le_path (ld_entries demo_log_dir))"
  "length (log_files ''server_log_'' (ld_entries demo_log_dir)) = 2"
  by code_simp+

lemma check_log_files_removes_oldest_witness:
  "demo_file ''server_log_1'' 10 \<in> set (ld_entries demo_log_dir) \<and> is_log_file ''server_log_'' (demo_file ''server_log_1'' 10)"
proof -
  have "check_log_files False ''server_log_'' 1 demo_log_dir =
      Inr (Some (demo_file ''server_log_1'' 10), demo_log_dir\<lparr>ld_entries := [demo_file ''server_log_2'' 20, demo_file ''other'' 5]\<rparr>)"
    by code_simp
  from check_log_files_removes_oldest [OF this] show ?thesis by simp
qed

lemma log_files_converge_witness:
  "\<exists>dir'. log_minutes ''server_log_'' 1 (replicate 3 []) demo_log_dir = Inr dir' \<and>
     length (log_files ''server_log_'' (ld_entries dir')) = 1"
  using log_files_converge [OF demo_log_dir_ok(2,1), of "''server_log_''" 1 3] by (simp add: demo_log_dir_ok(3))

lemma log_files_bounded_witness:
  "\<exists>dir'. log_minutes ''server_log_'' 1 [[demo_file ''server_log_3'' 30], []] demo_log_dir = Inr dir' \<and>
     length (log_files ''server_log_'' (ld_entries dir')) \<le> 2 \<and>
     length (log_files ''server_log_'' (ld_entries dir' @ [demo_file ''server_log_4'' 40])) \<le> 3"
proof -
  have "distinct (map le_path (ld_entries demo_log_dir @ concat [[demo_file ''server_log_3'' 30], []]))"
    "list_all (list_all entry_ok) [[demo_file ''server_log_3'' 30], []]"
    "list_all (\<lambda>es. length (filter (is_log_file ''server_log_'') es) \<le> 1)
       ([[demo_file ''server_log_3'' 30], []] @ [[demo_file ''server_log_4'' 40]])" by code_simp+
  from log_files_bounded [OF this(1) demo_log_dir_ok(1) this(2,3), of 1] show ?thesis
    by (auto simp: demo_log_dir_ok(3) simp del: log_minutes.simps)
qed

definition demo_config_text :: string where
  "demo_config_text = ''listen 8080; location /echo EchoHandler { }''"

definition demo_world :: mem_world where
  "demo_world = [(''conf'', File demo_config_text)]"

definition demo_statements :: "NginxConfigStatement list" where
  "demo_statements = [Statement [''listen'', ''8080''] None,
     Statement [''location'', ''/echo'', ''EchoHandler''] (Some [])]"

lemma demo_main:
  "\<exists>cfg rs r. main mem_fs True 4 ([] :: (string \<times> string) list) demo_world [''server'', ''conf''] = Serving 8080 cfg rs r"
proof -
  have p: "Parse demo_config_text [] = Inr (True, demo_statements)"
    unfolding demo_config_text_def demo_statements_def by code_simp
  have "stoi ''8080'' = Inr 8080"
    by (simp add: stoi_def is_space_def is_digit_def digits_val_def digit_val_def in_int_code)
  then have l: "get_listen_port demo_statements = Inr 8080"
    by (simp add: get_listen_port_def port_range_def demo_statements_def)
  have "\<exists>x. init_server mem_fs \<lparr>statements = demo_statements, paths = []\<rparr> Map.empty demo_world = Inr x"
    by (simp add: init_server_def get_paths_def demo_statements_def statement_paths_def token_at_def
        handler_paths_def keyword_defs simple_path_def new_path_def)
  then obtain cfg rs w' where
    i: "init_server mem_fs \<lparr>statements = demo_statements, paths = []\<rparr> Map.empty demo_world = Inr (cfg, rs, w')"
    by (metis prod_cases3)
  have "fs_read mem_fs demo_world ''conf'' = Some demo_config_text"
    by (simp add: mem_fs_def mem_file_def demo_world_def)
  then have "config_stream mem_fs demo_world ''conf'' = Some demo_config_text"
    by (simp add: config_stream_def) (simp add: mem_fs_def demo_world_def)
  with p l i short_port [OF l] show ?thesis
    by (simp add: main_def start_server_def Parse_file_def)
qed

lemma started_server_witness:
  "\<exists>cfg rs r. main mem_fs True 4 ([] :: (string \<times> string) list) demo_world [''server'', ''conf''] = Serving 8080 cfg rs r \<and>
     sessions r = [set_routes rs get_session] \<and> rs (match_route rs ''/nowhere'') \<noteq> None"
proof -
  from demo_main obtain cfg rs r where
    m: "main mem_fs True 4 ([] :: (string \<times> string) list) demo_world [''server'', ''conf''] = Serving 8080 cfg rs r" by blast
  from started_server [OF m, of "''/nowhere''"] m show ?thesis by blast
qed

end
