(* ===== verification/Server_Invariants.thy ===== *)
theory Server_Invariants
  imports Server_Main
begin

text \<open>
  Invariants of the runs of a server: every request of a started server finds a factory, and the
  IDs of the model, unbounded integers, stay in the range of an \<^verbatim>\<open>int\<close>.
\<close>

section \<open>Registered IDs\<close>

definition ids_typed :: "(string \<rightharpoonup> int list) \<Rightarrow> bool" where
  "ids_typed pc \<longleftrightarrow> (\<forall>e i. registered pc e i \<longrightarrow> in_int i)"

lemma ids_typed_empty [simp]: "ids_typed Map.empty"
  by (simp add: ids_typed_def registered_def ids_of_def)

lemma api_load_typed:
  assumes "api_load fs root s = Inr s'" and "ids_typed (path_counts s)"
  shows "ids_typed (path_counts s')"
  using assms(1)
proof (rule api_loadE)
  fix files
  assume "\<forall>e i. registered (path_counts s') e i \<longleftrightarrow>
      registered (path_counts s) e i \<or> (\<exists>f \<in> set files. item_file fs (world s) f e i)"
  then show ?thesis using assms(2) by (auto simp: ids_typed_def item_file_def dest: stoi_range)
qed

lemma handle_post_typed:
  assumes "handle_post fs h s req res d = Inr out" and "ids_typed (path_counts s)"
  shows "ids_typed (path_counts (out_state out))"
proof -
  from assms(1) consider "path_counts (out_state out) = path_counts s"
    | i pc where "get_next_id (path_counts s) d = Inr (i, pc)" and "path_counts (out_state out) = pc"
    by (auto simp: handle_post_def Let_def elim!: result_elims split: if_splits)
  then show ?thesis
  proof cases
    case (2 i pc)
    with get_next_id_registered [OF 2(1)] assms(2) show ?thesis by (auto simp: ids_typed_def)
  qed (use assms(2) in simp)
qed

lemma handle_delete_typed:
  assumes "handle_delete fs h s req res d = Inr out" and "ids_typed (path_counts s)"
  shows "ids_typed (path_counts (out_state out))"
proof -
  from assms(1) consider "path_counts (out_state out) = path_counts s"
    | i e ids where "path_counts s e = Some ids" and "path_counts (out_state out) = (path_counts s)(e \<mapsto> release_id i ids)"
    by (auto simp: handle_delete_def Let_def elim!: result_elims split: if_splits sum.splits option.splits)
  then show ?thesis
  proof cases
    case (2 i e ids)
    have "j \<in> set ids \<Longrightarrow> registered (path_counts s) e j" for j using 2(1) by (simp add: registered_def ids_of_def)
    moreover have "set (release_id i ids) \<subseteq> set ids" by (simp add: release_id_def set_remove1_subset)
    ultimately show ?thesis using assms(2) 2(2) by (auto simp: ids_typed_def)
  qed (use assms(2) in simp)
qed

lemma handle_put_counts: "handle_put fs h s req res d = Inr out \<Longrightarrow> path_counts (out_state out) = path_counts s"
  by (auto simp: handle_put_def Let_def elim!: result_elims split: if_splits sum.splits)

lemma api_handle_request_typed:
  assumes "api_handle_request fs h s req res = Inr out" and "ids_typed (path_counts s)"
  shows "ids_typed (path_counts (out_state out))"
  using assms(1)
proof (cases rule: api_handle_request_cases)
  case (get d)
  then show ?thesis using api_unchanged [OF assms(1)] assms(2) by simp
next
  case (list d)
  then show ?thesis using api_unchanged [OF assms(1)] assms(2) by simp
qed (use assms(2) in \<open>auto dest: handle_post_typed [OF sym] handle_delete_typed [OF sym] handle_put_counts [OF sym]\<close>)

section \<open>From the handlers to the run\<close>

definition counts_typed :: "('w, 'm) server_state \<Rightarrow> bool" where
  "counts_typed st \<longleftrightarrow> (\<forall>loc. ids_typed (sv_counts st loc))"

lemma create_typed:
  assumes "create fs cfg f loc url p st = Inr (h, st')" and "counts_typed st"
  shows "counts_typed st'"
proof (cases "f = Api_factory")
  case True
  with assms(1) obtain s where "api_load fs (get_root cfg loc) \<lparr>world = sv_world st, path_counts = sv_counts st loc\<rparr> = Inr s"
    and "st' = st\<lparr>sv_counts := (sv_counts st)(loc := path_counts s)\<rparr>" by (auto elim!: result_elims)
  with api_load_typed assms(2) show ?thesis by (fastforce simp: counts_typed_def)
next
  case False
  with assms show ?thesis by (cases f) (simp_all add: Let_def)
qed

lemma run_handler_typed:
  assumes "run_handler fs sha256 smtp ser h st req res = Inr out" and "counts_typed st"
  shows "counts_typed (out_state out)"
proof (cases h)
  case (H_api l a)
  with assms(1) obtain o1 where "api_handle_request fs a \<lparr>world = sv_world st, path_counts = sv_counts st l\<rparr> req res = Inr o1"
    and "sv_counts (out_state out) = (sv_counts st)(l := path_counts (out_state o1))"
    by (auto simp: embed_def elim!: result_elims)
  with api_handle_request_typed assms(2) show ?thesis by (fastforce simp: counts_typed_def)
qed (use assms in \<open>auto simp: embed_def counts_typed_def echo_handle_request_def health_handle_request_def
    not_found_handle_request_def Let_def elim!: result_elims split: if_splits\<close>)

lemma handle_read_typed:
  assumes "handle_read d cfg error sk ss st = Inr ro" and "counts_typed st"
  shows "counts_typed (ro_state ro)"
  using assms(1)
proof (cases rule: handle_readE)
  case (served b profile f h st1 ro1)
  note t = create_typed [OF served(4) assms(2)]
  from served(5) show ?thesis
    by (cases rule: write_to_socketE) (use t served(6) in \<open>auto dest: run_handler_typed\<close>)
qed (use assms(2) in simp)

lemma step_typed: "server_step d cfg rs r r' \<Longrightarrow> counts_typed (sv r) \<Longrightarrow> counts_typed (sv r')"
  by (erule server_stepE) (auto simp: handle_accept_simps dest: handle_read_typed)

section \<open>Properties\<close>

text \<open>
  The model keeps IDs as unbounded integers where the source has an \<^verbatim>\<open>int\<close>. In every reachable
  state of a run they are in its range, if those at the start are, so nothing is lost.
\<close>

lemma registered_ids_typed:
  assumes "reachable d cfg rs st r" and "\<forall>loc e i. i \<in> set (ids_of (sv_counts st loc) e) \<longrightarrow> in_int i"
    and "i \<in> set (ids_of (sv_counts (sv r) loc) e)"
  shows "in_int i"
proof -
  from assms(1) have "counts_typed (sv r)"
  proof (induction rule: reachable_induct)
    case first
    then show ?case using assms(2)
      by (simp add: first_run_def start_accept_def counts_typed_def ids_typed_def registered_def)
  next
    case (step r r')
    then show ?case by (blast dest: step_typed)
  qed
  with assms(3) show ?thesis by (auto simp: counts_typed_def ids_typed_def registered_def)
qed

text \<open>
  C26. A started server finds a factory for every request: in every state that is reachable
  from the start-up of \<^verbatim>\<open>main\<close>, whatever the other clients have sent, the lookup
  \<^verbatim>\<open>routes_[location]\<close> of a session is not a null pointer for any url.
\<close>

theorem started_server_routes_requests:
  assumes "main fs bind_ok num_threads mail w argv = Serving port cfg rs r0"
    and "(server_step d cfg rs)\<^sup>*\<^sup>* r0 r" and "ss \<in> set (sessions r)"
  shows "ss_routes ss (match_route (ss_routes ss) url) \<noteq> None"
proof -
  from assms(1) have "start_server fs bind_ok num_threads mail w (argv ! 1) = Inr (Serving port cfg rs r0)"
    by (auto simp: main_def split: if_splits sum.splits cpp_error.splits)
  then obtain ss0 w' where i: "init_server fs \<lparr>statements = ss0, paths = []\<rparr> Map.empty w = Inr (cfg, rs, w')"
    and r0: "r0 = first_run rs \<lparr>sv_world = w', sv_mail = mail, sv_clock = 0, sv_counts = (\<lambda>_. Map.empty)\<rparr>"
    by (auto simp: start_server_def elim!: result_elims split: if_splits)
  from assms(2) r0 have "reachable d cfg rs \<lparr>sv_world = w', sv_mail = mail, sv_clock = 0, sv_counts = (\<lambda>_. Map.empty)\<rparr> r"
    by (simp add: reachable_def)
  from reachable_sessions_ok [OF this] assms(3) have "ss_routes ss = rs" by (simp add: session_ok_def)
  then show ?thesis using init_server_routed [OF i, of url] by simp
qed

section \<open>Instances\<close>

lemma started_server_routes_requests_witness:
  "\<exists>cfg rs r0 ss. main mem_fs True 4 ([] :: (string \<times> string) list) demo_world [''server'', ''conf''] = Serving 8080 cfg rs r0 \<and>
     ss \<in> set (sessions r0) \<and> ss_routes ss (match_route (ss_routes ss) ''/nowhere'') \<noteq> None"
proof -
  from demo_main obtain cfg rs r0 where
    m: "main mem_fs True 4 ([] :: (string \<times> string) list) demo_world [''server'', ''conf''] = Serving 8080 cfg rs r0" by blast
  then have "sessions r0 = [set_routes rs get_session]"
    by (auto simp: main_def start_server_def first_run_def start_accept_def elim!: result_elims
        split: if_splits sum.splits cpp_error.splits)
  then have s: "set_routes rs get_session \<in> set (sessions r0)" by simp
  from m s started_server_routes_requests [OF m rtranclp.rtrancl_refl s, where url = "''/nowhere''"] show ?thesis by blast
qed

end
