(* ===== verification/Server_Store.thy ===== *)
theory Server_Store
  imports Session Api_Store
begin

text \<open>
  The whole server as a store: requests go through \<^verbatim>\<open>handle_read\<close> with the login cookie of
  the client, the routing table and the factory of an API location. The contract
  \<open>item_store\<close> of \<open>Api_Store\<close> is interpreted a second time, for the server.
\<close>

section \<open>Requests to an API location\<close>

text \<open>What a session does with a request that is routed to an API location.\<close>

definition open_sock :: sock where
  "open_sock = \<lparr>peer_ok = True, peer_error = [], write_ok = True\<rparr>"

text \<open>The session of a connection whose request has been read.\<close>

definition connection :: "routes \<Rightarrow> request \<Rightarrow> session" where
  "connection rs req = set_request req (fst (start None (set_routes rs get_session)))"

lemma connection_simps [simp]:
  "ss_request (connection rs req) = req" "ss_routes (connection rs req) = rs"
  "ss_profile (connection rs req) = initial_profile"
  by (simp_all add: connection_def)

lemma read_api_request:
  assumes "update_user (d_param_list d) (req_cookie req) initial_profile = Inr (b, p)"
    and "match_route rs (req_target req) = loc" and "rs loc = Some Api_factory"
    and "api_load (d_fs d) (get_root cfg loc) \<lparr>world = sv_world st, path_counts = sv_counts st loc\<rparr> = Inr s1"
    and "api_handle_request (d_fs d)
      \<lparr>api_location = loc, api_root = get_root cfg loc, api_url = req_target req, api_profile = p\<rparr>
      s1 req new_response = Inr out"
  shows "\<exists>ro. handle_read d cfg False open_sock (connection rs req) st = Inr ro \<and>
    ro_response ro = Some (out_res out) \<and>
    ro_state ro = st\<lparr>sv_world := world (out_state out),
        sv_counts := (sv_counts st)(loc := path_counts (out_state out))\<rparr>"
proof -
  have "world s1 = sv_world st" using assms(4) by (elim api_loadE) simp
  then have "s1 = \<lparr>world = sv_world st, path_counts = path_counts s1\<rparr>" by simp
  with assms show ?thesis
    by (simp add: handle_read_def open_sock_def write_to_socket_def handle_write_def embed_def)
qed

definition api_post :: "string \<Rightarrow> string \<Rightarrow> string \<Rightarrow> request" where
  "api_post d cookie b = (api_request Verb_post d b)\<lparr>req_cookie := cookie\<rparr>"

lemma api_request_fields [simp]:
  "req_cookie (api_request v d b) = []" "req_target (api_request v d b) = ''/api/'' @ d"
  "req_cookie (api_post d c b) = c" "req_target (api_post d c b) = ''/api/'' @ d"
  by (simp_all add: api_request_def api_post_def)

section \<open>Clients\<close>

text \<open>A client is logged in, with a cookie as the login wrote it, or sends none.\<close>

definition login_cookie :: "user_profile \<Rightarrow> string" where
  "login_cookie p = (if login_status p then ''crazyCode='' @ cookie_text (user_id p) (username p) (email p) else [])"

definition client_profile_ok :: "user_profile \<Rightarrow> bool" where
  "client_profile_ok p \<longleftrightarrow>
     (if login_status p then in_int (user_id p) \<and> CHR ''|'' \<notin> set (username p) \<and> CHR ''|'' \<notin> set (email p) \<and>
        email p \<noteq> [] \<and> (\<forall>c \<in> set (username p) \<union> set (email p). quotable c)
      else p = initial_profile)"

fun client_request :: "client_op \<Rightarrow> request" where
  "client_request (p, op) = (op_request op)\<lparr>req_cookie := login_cookie p\<rparr>"

lemma client_profile:
  assumes "param_list_ok pl" and "''crazyCode'' \<notin> fst ` set (pl '';'')" and "client_profile_ok p"
  shows "\<exists>b. update_user pl (login_cookie p) initial_profile = Inr (b, p)"
proof (cases "login_status p")
  case True
  then have "p = initial_profile\<lparr>user_id := user_id p, username := username p, email := email p, login_status := True\<rparr>"
    by simp
  with cookie_profile [OF assms(1), of "user_id p" "username p" "email p" initial_profile] assms(3) True
  show ?thesis by (auto simp: login_cookie_def client_profile_ok_def)
next
  case False
  with assms(2,3) show ?thesis by (auto simp: login_cookie_def client_profile_ok_def update_user_def user_loop_absent)
qed

section \<open>Routes\<close>

text \<open>The API location is \<^verbatim>\<open>/api\<close> and no other location is below it.\<close>

definition api_routed :: "routes \<Rightarrow> bool" where
  "api_routed rs \<longleftrightarrow> rs ''/api'' = Some Api_factory \<and> (\<forall>c. prefix ''/api/'' c \<longrightarrow> rs c = None)"

lemma api_route:
  assumes "api_routed rs"
  shows "match_route rs (''/api/'' @ d) = ''/api''"
proof -
  have c: "candidate (''/api/'' @ d) ''/api''" unfolding candidate_def by (rule disjI2, rule exI [of _ 4]) simp
  with assms match_loop_spec [of "''/api/'' @ d" rs] obtain c where
    m: "match_route rs (''/api/'' @ d) = c" "candidate (''/api/'' @ d) c" "rs c \<noteq> None" "4 \<le> length c"
    by (fastforce simp: api_routed_def match_route_def)
  from candidate_prefix [OF m(2)] obtain z where z: "''/api/'' @ d = c @ z" by (rule prefixE)
  have c4: "take 4 c = ''/api''" using m(4) arg_cong [OF z, of "take 4"] by simp
  show ?thesis
  proof (cases "length c = 4")
    case True
    with c4 m(1) show ?thesis by simp
  next
    case False
    then have "take 5 c = ''/api/''" using m(4) arg_cong [OF z, of "take 5"] by simp
    then have "prefix ''/api/'' c" by (metis take_is_prefix)
    with assms m(3) show ?thesis by (simp add: api_routed_def)
  qed
qed

lemma op_request_target: "\<exists>d. req_target (op_request op) = ''/api/'' @ d"
  by (cases op) (simp_all add: api_request_def)

section \<open>The server's step\<close>

definition server_exec ::
  "('w, 'm) deps \<Rightarrow> NginxConfig \<Rightarrow> routes \<Rightarrow> ('w, 'm) server_state \<Rightarrow> client_op
     \<Rightarrow> (('w, 'm) server_state \<times> status \<times> string) result" where
  "server_exec d cfg rs st cop =
     ebind (handle_read d cfg False open_sock (connection rs (client_request cop)) st) (\<lambda>ro.
       case ro_response ro of
         None \<Rightarrow> Inl System_error
       | Some res \<Rightarrow> Inr (ro_state ro, res_result res, res_body res))"

definition api_part :: "('w, 'm) server_state \<Rightarrow> 'w api_state" where
  "api_part st = \<lparr>world = sv_world st, path_counts = sv_counts st ''/api''\<rparr>"

lemma server_exec_api:
  assumes pl: "param_list_ok (d_param_list d)" "''crazyCode'' \<notin> fst ` set (d_param_list d '';'')"
    and p: "client_profile_ok p" and rs: "api_routed rs"
    and ex: "api_exec (d_fs d) ''/api'' (get_root cfg ''/api'') (api_part st) (p, op) = Inr (s', code, b)"
  shows "\<exists>st'. server_exec d cfg rs st (p, op) = Inr (st', code, b) \<and> api_part st' = s'"
proof -
  let ?h = "\<lparr>api_location = ''/api'', api_root = get_root cfg ''/api'', api_url = req_target (op_request op), api_profile = p\<rparr>"
  from ex obtain s1 out where l: "api_load (d_fs d) (get_root cfg ''/api'') (api_part st) = Inr s1"
    and h: "api_handle_request (d_fs d) ?h s1 (op_request op) new_response = Inr out"
    and out: "s' = out_state out" "code = out_status out" "b = res_body (out_res out)"
    by (auto simp: api_exec_def elim!: result_elims)
  obtain f where u: "update_user (d_param_list d) (req_cookie (client_request (p, op))) initial_profile = Inr (f, p)"
    using client_profile [OF pl p] by auto
  have m: "match_route rs (req_target (client_request (p, op))) = ''/api''"
    using op_request_target [of op] api_route [OF rs] by auto
  have r: "rs ''/api'' = Some Api_factory" using rs by (simp add: api_routed_def)
  have "api_handle_request (d_fs d)
      \<lparr>api_location = ''/api'', api_root = get_root cfg ''/api'', api_url = req_target (client_request (p, op)), api_profile = p\<rparr>
      s1 (client_request (p, op)) new_response = Inr out" using h by simp
  with read_api_request [OF u m r l [unfolded api_part_def]] obtain ro where
    "handle_read d cfg False open_sock (connection rs (client_request (p, op))) st = Inr ro"
    "ro_response ro = Some (out_res out)" "ro_state ro = st\<lparr>sv_world := world (out_state out),
        sv_counts := (sv_counts st)(''/api'' := path_counts (out_state out))\<rparr>" by blast
  with out api.status_law [OF h]
  show ?thesis by (simp add: server_exec_def api_part_def del: client_request.simps)
qed

text \<open>A server state represents a store when its API part does and the server is configured for it.\<close>

definition server_rep ::
  "('w, 'm) deps \<Rightarrow> NginxConfig \<Rightarrow> routes \<Rightarrow> string set \<Rightarrow> nat \<Rightarrow> ('w, 'm) server_state \<Rightarrow> store \<Rightarrow> bool" where
  "server_rep d cfg rs E n st \<sigma> \<longleftrightarrow>
     param_list_ok (d_param_list d) \<and> ''crazyCode'' \<notin> fst ` set (d_param_list d '';'') \<and> api_routed rs \<and>
     store_rep (d_fs d) (get_root cfg ''/api'') E n (api_part st) \<sigma>"

fun server_client_ok :: "string set \<Rightarrow> client_op \<Rightarrow> bool" where
  "server_client_ok E (p, op) \<longleftrightarrow> client_profile_ok p \<and> client_ok E (p, op)"

interpretation server_store: item_store "server_rep d cfg rs E" "server_exec d cfg rs" "server_client_ok E"
  "get_root cfg ''/api''" id_cap for d cfg rs E
proof
  fix n st \<sigma> cop
  assume rep: "server_rep d cfg rs E n st \<sigma>" and n: "n < id_cap" and ok: "server_client_ok E cop"
  obtain p op where cop: "cop = (p, op)" by (cases cop)
  from rep have env: "param_list_ok (d_param_list d)" "''crazyCode'' \<notin> fst ` set (d_param_list d '';'')" "api_routed rs"
    and srep: "store_rep (d_fs d) (get_root cfg ''/api'') E n (api_part st) \<sigma>" by (simp_all add: server_rep_def)
  from ok cop have p: "client_profile_ok p" and co: "client_ok E (p, op)" by simp_all
  from api_store.step_law [OF srep n co] obtain s' \<sigma>' code b where
    1: "api_exec (d_fs d) ''/api'' (get_root cfg ''/api'') (api_part st) (p, op) = Inr (s', code, b)"
      "store_step (get_root cfg ''/api'') \<sigma> (p, op) \<sigma>' code b"
      "store_rep (d_fs d) (get_root cfg ''/api'') E (Suc n) s' \<sigma>'" by blast
  from server_exec_api [OF env(1,2) p env(3) 1(1)] obtain st' where
    "server_exec d cfg rs st (p, op) = Inr (st', code, b)" "api_part st' = s'" by blast
  with 1 env show "\<exists>st' \<sigma>' code b. server_exec d cfg rs st cop = Inr (st', code, b) \<and>
      store_step (get_root cfg ''/api'') \<sigma> cop \<sigma>' code b \<and> server_rep d cfg rs E (Suc n) st' \<sigma>'"
    by (auto simp: server_rep_def cop)
next
  fix n st \<sigma> p e i c
  assume "server_rep d cfg rs E n st \<sigma>" "server_client_ok E (p, List e)" "items \<sigma> e i = Some c"
  with api_store.read_law [of "d_fs d" "get_root cfg ''/api''" E n "api_part st" \<sigma> p e i c]
  show "server_client_ok E (p, Get e i)" by (simp add: server_rep_def)
qed

section \<open>Properties\<close>

text \<open>
  The server implements a store for its clients: from an empty root directory, any sequence
  of fewer than \<open>2\<^sup>3\<^sup>1\<close> requests about the entities in \<open>E\<close>, of clients that send the cookie of
  their login or none, goes through \<^verbatim>\<open>handle_read\<close>, routing, factory and handler without an
  exception, and the responses are those the specification allows.
\<close>

theorem server_implements_store:
  assumes "storage_ok (d_fs d) root E" and "get_root cfg ''/api'' = root" and "api_routed rs"
    and "param_list_ok (d_param_list d)" and "''crazyCode'' \<notin> fst ` set (d_param_list d '';'')"
    and "fs_is_directory (d_fs d) (sv_world st) root = Inr True" and "fs_walk (d_fs d) (sv_world st) root = Inr []"
    and "\<forall>p. tree_path root E p \<and> p \<noteq> root \<longrightarrow> fs_exists (d_fs d) (sv_world st) p = Inr False"
    and "sv_counts st ''/api'' = Map.empty"
    and "list_all (server_client_ok E) ops" and "length ops \<le> id_cap"
  shows "\<exists>st' rs' \<sigma>'. exec_run (server_exec d cfg rs) st ops = Inr (st', rs') \<and>
    store_run root Map.empty ops rs' \<sigma>' \<and> server_rep d cfg rs E (length ops) st' \<sigma>'"
proof -
  from fresh_root [OF assms(1,6-8)] assms(2-5,9) have "server_rep d cfg rs E 0 st Map.empty"
    by (simp add: server_rep_def api_part_def)
  from server_store.run_refines [OF this _ assms(10)] assms(2,11) show ?thesis by simp
qed

text \<open>
  C11. A logged-in user posts and everybody can read, through the whole server and whatever
  happens in between: the POST is answered with 201 and an ID, and after any further requests
  of any clients none of which puts or deletes that item, a GET of the ID is answered with 200
  and the posted content.
\<close>

theorem server_posted_item_stays:
  assumes "server_rep d cfg rs E n st \<sigma>" and "Suc (n + length ops) < id_cap"
    and "login_status p" and "client_profile_ok p" and "client_profile_ok q" and "e \<in> E"
    and "list_all (server_client_ok E) ops"
  shows "\<exists>st1 i. server_exec d cfg rs st (p, Post e b) =
      Inr (st1, Status_created, created_body (get_root cfg ''/api'' @ ''/'' @ e) i) \<and>
    (list_all (\<lambda>op. \<not> touches e i op) ops \<longrightarrow>
      (\<exists>st2 rs' st3. exec_run (server_exec d cfg rs) st1 ops = Inr (st2, rs') \<and>
         server_exec d cfg rs st2 (q, Get e i) = Inr (st3, Status_ok, b)))"
  using assms by (intro server_store.posted_item) simp_all

section \<open>Instances\<close>

definition demo_store_config :: NginxConfig where
  "demo_store_config = \<lparr>statements = [], paths = [new_path\<lparr>p_type := Ep_api, p_endpoint := ''/api'', p_root := ''r''\<rparr>]\<rparr>"

definition demo_store_routes :: routes where
  "demo_store_routes = [''/api'' \<mapsto> Api_factory, ''/'' \<mapsto> Factory_404]"

definition demo_store_state :: "(mem_world, (string \<times> string) list) server_state" where
  "demo_store_state = demo_server_state\<lparr>sv_world := demo_root\<rparr>"

lemma demo_store_env:
  "storage_ok (d_fs demo_deps) ''r'' {''S''}" "get_root demo_store_config ''/api'' = ''r''" "api_routed demo_store_routes"
  "param_list_ok (d_param_list demo_deps)" "''crazyCode'' \<notin> fst ` set (d_param_list demo_deps '';'')"
  "fs_is_directory (d_fs demo_deps) (sv_world demo_store_state) ''r'' = Inr True"
  "fs_walk (d_fs demo_deps) (sv_world demo_store_state) ''r'' = Inr []"
  "\<forall>p. tree_path ''r'' {''S''} p \<and> p \<noteq> ''r'' \<longrightarrow> fs_exists (d_fs demo_deps) (sv_world demo_store_state) p = Inr False"
  "sv_counts demo_store_state ''/api'' = Map.empty"
  using demo_storage demo_fresh demo_param_list_ok
  by (simp_all add: demo_deps_def demo_store_state_def demo_server_state_def demo_param_list_def
      demo_store_config_def get_root_def demo_store_routes_def api_routed_def prefix_def)

lemma demo_clients:
  "client_profile_ok demo_user" "client_profile_ok demo_visitor" "login_status demo_user"
  by (simp_all add: client_profile_ok_def demo_user_def demo_visitor_def initial_profile_def in_int_code quotable_def)

lemma server_implements_store_witness:
  "\<exists>st' rs' \<sigma>'. exec_run (server_exec demo_deps demo_store_config demo_store_routes) demo_store_state demo_ops = Inr (st', rs') \<and>
    store_run ''r'' Map.empty demo_ops rs' \<sigma>' \<and>
    server_rep demo_deps demo_store_config demo_store_routes {''S''} (length demo_ops) st' \<sigma>'"
  by (rule server_implements_store [OF demo_store_env])
    (simp_all add: demo_ops_def demo_clients in_int_code id_cap_def)

lemma demo_store_rep: "server_rep demo_deps demo_store_config demo_store_routes {''S''} 0 demo_store_state Map.empty"
  using demo_store_env fresh_root [OF demo_store_env(1,6-8)] by (simp add: server_rep_def api_part_def)

lemma server_posted_item_stays_witness:
  "\<exists>st1 i st2 rs' st3. server_exec demo_deps demo_store_config demo_store_routes demo_store_state
       (demo_user, Post ''S'' ''a'') =
      Inr (st1, Status_created, created_body (get_root demo_store_config ''/api'' @ ''/'' @ ''S'') i) \<and>
     exec_run (server_exec demo_deps demo_store_config demo_store_routes) st1 [(demo_user, Post ''S'' ''b'')] = Inr (st2, rs') \<and>
     server_exec demo_deps demo_store_config demo_store_routes st2 (demo_visitor, Get ''S'' i) = Inr (st3, Status_ok, ''a'')"
  using server_posted_item_stays [OF demo_store_rep, of "[(demo_user, Post ''S'' ''b'')]"
      demo_user demo_visitor "''S''" "''a''"] demo_clients
  by (simp add: id_cap_def del: exec_run.simps append.simps)

end
