(* ===== verification/Server_Traffic.thy ===== *)
theory Server_Traffic
  imports Server_Store
begin

text \<open>
  The store under mixed traffic. \<open>Server_Store\<close> is about requests to the API alone; here they
  come between requests of any kind to any location (\<^verbatim>\<open>session::handle_read\<close>,
  \<^verbatim>\<open>src/src/session.cc\<close>): static files, pages, logins, signups that write the user database,
  requests to the API without a login whatever their form, reads that fail, peers that are
  gone. None of these disturbs the items of the API: the frame between the authentication
  handler and the API handler, which share the disk.
\<close>

section \<open>What leaves the store alone\<close>

text \<open>Nothing the API looks at is different, and the walk finds nothing new.\<close>

definition undisturbed :: "'w fs_ops \<Rightarrow> string \<Rightarrow> string set \<Rightarrow> 'w \<Rightarrow> 'w \<Rightarrow> bool" where
  "undisturbed fs root E w w' \<longleftrightarrow>
     (\<forall>q. tree_path root E q \<longrightarrow> same_node fs w w' q) \<and>
     (\<forall>files. fs_walk fs w root = Inr files \<longrightarrow>
        (\<exists>files'. fs_walk fs w' root = Inr files' \<and> set files' \<subseteq> set files))"

lemma undisturbed_refl [simp]: "undisturbed fs root E w w"
  by (auto simp: undisturbed_def same_node_def)

text \<open>A file outside the tree of the API: writing it leaves the tree alone.\<close>

definition outside :: "'w fs_ops \<Rightarrow> string \<Rightarrow> string set \<Rightarrow> string \<Rightarrow> bool" where
  "outside fs root E p \<longleftrightarrow>
     (\<forall>w c. undisturbed fs root E w (fs_write fs w p c) \<and> undisturbed fs root E w (fs_append fs w p c))"

lemma store_rep_undisturbed:
  assumes rep: "store_rep fs root E n s \<sigma>" and u: "undisturbed fs root E (world s) (world s')"
    and pc: "path_counts s' = path_counts s"
  shows "store_rep fs root E n s' \<sigma>"
proof -
  have same: "same_node fs (world s) (world s') q" if "tree_path root E q" for q
    using u that by (simp add: undisturbed_def)
  have "tree_rep fs root E (world s')"
    using rep_tree [OF rep] u same [of root] by (fastforce simp: tree_rep_def undisturbed_def same_node_def)
  moreover have "entity_rep fs root n (world s') (path_counts s' e) (\<sigma> e) e" if e: "e \<in> E" for e
    using rep_entity [OF rep e] same [OF tree_pathI(2) [OF e]] item_node_same [OF same [OF tree_pathI(3) [OF e]]]
    by (auto simp: entity_rep_def same_node_def pc split: option.splits)
  ultimately show ?thesis using rep by (simp add: store_rep_def)
qed

text \<open>What a signup can do to the disk.\<close>

lemma signup_writes:
  assumes "signup fs sha256 dir w e n p = Inr (w', ok)" and "outside fs root E (data_path dir)"
  shows "undisturbed fs root E w w'"
  using assms by (auto simp: signup_def Let_def outside_def elim!: result_elims split: if_splits option.splits)

lemma auth_undisturbed:
  assumes r: "auth_handle_request fs sha256 smtp h s req res = Inr out"
    and out: "outside fs root E (data_path (auth_data_path h @ ''/''))"
  shows "undisturbed fs root E (auth_world s) (auth_world (out_state out))"
proof -
  have signup: "undisturbed fs root E (auth_world s) (auth_world (out_state out))" if s: "signup_submit fs sha256 h s req res = Inr out"
  proof -
    from s obtain w ok where w: "signup_string fs sha256 (auth_data_path h @ ''/'') (auth_world s) (req_body req) = Inr (w, ok)"
      and "auth_world (out_state out) = w" by (auto simp: signup_submit_def Let_def elim!: result_elims split: if_splits)
    with signup_writes [OF _ out] show ?thesis by (fastforce simp: signup_string_def Let_def split: if_splits)
  qed
  show ?thesis
  proof (cases "req_target req = auth_location h @ auth_signup h @ ''-submit''")
    case True
    with r signup show ?thesis
      by (auto simp: auth_handle_request_def Let_def login_submit_def serve_page_def logout_branch_def
          elim!: result_elims split: if_splits)
  next
    case False
    from auth_changes_only_on_signup [OF r False] show ?thesis by simp
  qed
qed

section \<open>Requests beside the API\<close>

definition auth_database :: "NginxConfig \<Rightarrow> string \<Rightarrow> string" where
  "auth_database cfg loc = data_path (map_get ''data_path'' (get_auth_path_map cfg loc) @ ''/'')"

text \<open>
  A request to an API location comes without a login; an authentication location keeps its
  database outside the tree of the API; all others are unrestricted.
\<close>

definition bystander :: "('w, 'm) deps \<Rightarrow> NginxConfig \<Rightarrow> routes \<Rightarrow> string set \<Rightarrow> request \<Rightarrow> bool" where
  "bystander d cfg rs E req \<longleftrightarrow>
     (let loc = match_route rs (req_target req) in
      (rs loc = Some Api_factory \<longrightarrow> ''crazyCode'' \<notin> fst ` set (d_param_list d ('';'' @ req_cookie req))) \<and>
      (rs loc = Some Auth_factory \<longrightarrow> outside (d_fs d) (get_root cfg ''/api'') E (auth_database cfg loc)))"

lemma run_handler_counts:
  "run_handler fs sha256 smtp ser h st req res = Inr out \<Longrightarrow> (\<forall>l a. h \<noteq> H_api l a) \<Longrightarrow>
     sv_counts (out_state out) = sv_counts st"
  by (cases h) (auto simp: embed_def echo_handle_request_def health_handle_request_def not_found_handle_request_def Let_def
      elim!: result_elims split: if_splits)

lemma create_other:
  assumes "create fs cfg f loc url p st = Inr (h, st1)" and "f \<noteq> Api_factory"
  shows "st1 = st" and "\<forall>l a. h \<noteq> H_api l a"
proof -
  from assms show "st1 = st" by (cases f) simp_all
  from assms show "\<forall>l a. h \<noteq> H_api l a" by (cases f) (auto simp: Let_def)
qed

lemma run_undisturbed:
  assumes r: "run_handler fs sha256 smtp ser h st req res = Inr out" and api: "\<forall>l a. h \<noteq> H_api l a"
    and auth: "\<And>a. h = H_auth a \<Longrightarrow> outside fs root E (data_path (auth_data_path a @ ''/''))"
  shows "undisturbed fs root E (sv_world st) (sv_world (out_state out))"
proof (cases "\<exists>a. h = H_auth a")
  case True
  then obtain a where a: "h = H_auth a" ..
  with r obtain o1 where "auth_handle_request fs sha256 smtp a \<lparr>auth_world = sv_world st, auth_mail = sv_mail st\<rparr> req res = Inr o1"
    and "sv_world (out_state out) = auth_world (out_state o1)" by (auto simp: embed_def elim!: result_elims)
  with auth_undisturbed [OF this(1) auth [OF a]] show ?thesis by simp
next
  case False
  with run_handler_world [OF r] api show ?thesis by auto
qed

lemma other_keeps:
  assumes rep: "server_rep d cfg rs E n st \<sigma>" and ok: "bystander d cfg rs E req"
    and read: "handle_read d cfg error sk (connection rs req) st = Inr ro"
  shows "server_rep d cfg rs E n (ro_state ro) \<sigma>"
  using read
proof (cases rule: handle_readE)
  case (served b profile f h st1 ro1)
  let ?loc = "match_route rs (req_target req)"
  let ?root = "get_root cfg ''/api''"
  note f = served(3) [simplified] and c = served(4) [simplified]
  have srep: "store_rep (d_fs d) ?root E n (api_part st) \<sigma>" using rep by (simp add: server_rep_def)
  have "store_rep (d_fs d) ?root E n (api_part (ro_state ro1)) \<sigma>"
  proof (cases "f = Api_factory")
    case True
    have "update_user (d_param_list d) (req_cookie req) initial_profile = Inr (False, initial_profile)"
      unfolding update_user_def using ok f True by (intro user_loop_absent) (simp add: bystander_def Let_def)
    with served(2) have p: "profile = initial_profile" by simp
    from c True obtain s where
      s: "api_load (d_fs d) (get_root cfg ?loc) \<lparr>world = sv_world st, path_counts = sv_counts st ?loc\<rparr> = Inr s"
      and h: "h = H_api ?loc \<lparr>api_location = ?loc, api_root = get_root cfg ?loc, api_url = req_target req, api_profile = profile\<rparr>"
      and st1: "st1 = st\<lparr>sv_counts := (sv_counts st)(?loc := path_counts s)\<rparr>" by (auto elim!: result_elims)
    have part: "api_part st1 = api_part st"
    proof (cases "?loc = ''/api''")
      case True
      with s api_load_known [OF srep] st1 show ?thesis by (auto simp: api_part_def)
    qed (simp add: st1 api_part_def)
    have "api_part (ro_state ro1) = api_part st1"
    proof (rule write_to_socketE [OF served(5)])
      fix out
      assume "run_handler (d_fs d) (d_sha256 d) (d_smtp d) (d_serialize d) h st1
          (ss_request ((connection rs req)\<lparr>ss_profile := profile\<rparr>)) new_response = Inr out" "ro_state ro1 = out_state out"
      moreover have "\<not> login_status profile" by (simp add: p initial_profile_def)
      ultimately show ?thesis
        by (auto simp: h embed_def api_part_def elim!: result_elims dest!: api_unchanged)
    qed simp
    with part srep show ?thesis by simp
  next
    case False
    note o = create_other [OF c False]
    have auth: "outside (d_fs d) ?root E (data_path (auth_data_path a @ ''/''))" if "h = H_auth a" for a
    proof -
      have "f = Auth_factory" using create_not_auth c that by blast
      with ok f have "outside (d_fs d) ?root E (auth_database cfg ?loc)" by (simp add: bystander_def Let_def)
      moreover from c that \<open>f = Auth_factory\<close> have "auth_data_path a = map_get ''data_path'' (get_auth_path_map cfg ?loc)"
        by (auto simp: Let_def)
      ultimately show ?thesis by (simp add: auth_database_def)
    qed
    show ?thesis
    proof (rule write_to_socketE [OF served(5)])
      assume "ro_state ro1 = st1"
      with o(1) srep show ?thesis by simp
    next
      fix out
      assume r: "run_handler (d_fs d) (d_sha256 d) (d_smtp d) (d_serialize d) h st1
          (ss_request ((connection rs req)\<lparr>ss_profile := profile\<rparr>)) new_response = Inr out" and out: "ro_state ro1 = out_state out"
      from run_undisturbed [OF r o(2) auth] run_handler_counts [OF r o(2)] o(1) out
      show ?thesis by (intro store_rep_undisturbed [OF srep]) (simp_all add: api_part_def)
    qed
  qed
  with rep served(6) show ?thesis by (simp add: server_rep_def)
qed (use rep in simp)

section \<open>Mixed traffic\<close>

text \<open>A request of a client of the store, or any other: the error of the read, the socket, what was read.\<close>

datatype traffic = Item client_op | Other bool sock request

fun traffic_exec ::
  "('w, 'm) deps \<Rightarrow> NginxConfig \<Rightarrow> routes \<Rightarrow> ('w, 'm) server_state \<Rightarrow> traffic
     \<Rightarrow> (('w, 'm) server_state \<times> (status \<times> string) list) result" where
  "traffic_exec d cfg rs st (Item cop) =
     ebind (server_exec d cfg rs st cop) (\<lambda>(st', code, b). Inr (st', [(code, b)]))"
| "traffic_exec d cfg rs st (Other error sk req) =
     ebind (handle_read d cfg error sk (connection rs req) st) (\<lambda>ro. Inr (ro_state ro, []))"

fun item_op :: "traffic \<Rightarrow> client_op list" where
  "item_op (Item cop) = [cop]"
| "item_op (Other error sk req) = []"

definition item_ops :: "traffic list \<Rightarrow> client_op list" where
  "item_ops ts = concat (map item_op ts)"

lemma item_ops_simps [simp]: "item_ops [] = []" "item_ops (t # ts) = item_op t @ item_ops ts"
  by (simp_all add: item_ops_def)

fun traffic_ok :: "('w, 'm) deps \<Rightarrow> NginxConfig \<Rightarrow> routes \<Rightarrow> string set \<Rightarrow> traffic \<Rightarrow> bool" where
  "traffic_ok d cfg rs E (Item cop) \<longleftrightarrow> server_client_ok E cop"
| "traffic_ok d cfg rs E (Other error sk req) \<longleftrightarrow> bystander d cfg rs E req"

fun is_other :: "traffic \<Rightarrow> bool" where
  "is_other (Item cop) \<longleftrightarrow> False"
| "is_other (Other error sk req) \<longleftrightarrow> True"

text \<open>One request keeps the representation, and only one beside the API's clients can throw.\<close>

lemma traffic_refines:
  assumes "server_rep d cfg rs E n st \<sigma>" and "traffic_ok d cfg rs E t" and "n + length (item_op t) \<le> id_cap"
  shows "case traffic_exec d cfg rs st t of
      Inl _ \<Rightarrow> is_other t
    | Inr (st', answers) \<Rightarrow> \<exists>\<sigma>'. store_run (get_root cfg ''/api'') \<sigma> (item_op t) answers \<sigma>' \<and>
        server_rep d cfg rs E (n + length (item_op t)) st' \<sigma>'"
proof (cases t)
  case (Item cop)
  with assms have ok: "server_client_ok E cop" and n: "n < id_cap" by simp_all
  from server_store.step_law [OF assms(1) n ok] Item show ?thesis by (fastforce intro: run_cons run_nil)
next
  case (Other error sk req)
  show ?thesis
  proof (cases "handle_read d cfg error sk (connection rs req) st")
    case (Inr ro)
    with other_keeps [OF assms(1) _ Inr] assms(2) Other show ?thesis by (auto intro: run_nil)
  qed (simp add: Other)
qed

section \<open>Instances\<close>

lemma mem_undisturbed:
  assumes "\<not> prefix (root @ ''/'') p" and "p \<noteq> root"
  shows "undisturbed mem_fs root E w (mem_put w p nd)"
proof -
  have "q \<noteq> p" if "tree_path root E q" for q
    using that assms by (auto simp: tree_path_def entity_at_def item_at_def prefix_def)
  moreover have "set (map fst (filter (\<lambda>e. prefix (root @ ''/'') (fst e)) (mem_put w p nd)))
      \<subseteq> set (map fst (filter (\<lambda>e. prefix (root @ ''/'') (fst e)) w))"
    using assms by (auto simp: mem_put_def)
  ultimately show ?thesis
    using assms by (auto simp: undisturbed_def same_node_def mem_fs_def mem_file_def map_of_mem_put)
qed

lemma mem_outside: "\<not> prefix (root @ ''/'') p \<Longrightarrow> p \<noteq> root \<Longrightarrow> outside mem_fs root E p"
proof -
  assume p: "\<not> prefix (root @ ''/'') p" "p \<noteq> root"
  have "fs_write mem_fs w p c = w \<or> (\<exists>nd. fs_write mem_fs w p c = mem_put w p nd)"
    "fs_append mem_fs w p c = w \<or> (\<exists>nd. fs_append mem_fs w p c = mem_put w p nd)" for w c
    by (auto simp: mem_fs_def)
  then show ?thesis unfolding outside_def using mem_undisturbed [OF p] undisturbed_refl by metis
qed

end
