(* ===== verification/Server_Runs.thy ===== *)
theory Server_Runs
  imports Server_Traffic
begin

text \<open>
  The store behind the event loop. \<open>Server_Traffic\<close> takes requests one after the other, each on a
  connection of its own; here they arrive in a run of the server (\<^verbatim>\<open>start_accept\<close> and
  \<^verbatim>\<open>handle_accept\<close> of \<^verbatim>\<open>src/src/server.cc\<close>, \<^verbatim>\<open>start\<close> and \<^verbatim>\<open>handle_read\<close> of
  \<^verbatim>\<open>src/src/session.cc\<close>): many connections are open at the same time, and their reads complete in
  any order. The runs are executable (\<open>event_step\<close>), their steps are those of the relation
  \<open>server_step\<close>, and each run is simulated by the sequence of its requests: which session a
  request came through makes no difference. Events are handled one at a time, as by one worker
  thread; what several can do to each other is the subject of \<open>Api_Threads\<close>.
\<close>

section \<open>Events\<close>

text \<open>An accept or a read of session \<open>i\<close> completes.\<close>

datatype event = Accept_done bool "string option" nat | Read_done nat traffic

fun traffic_read :: "traffic \<Rightarrow> bool \<times> sock \<times> request" where
  "traffic_read (Item cop) = (False, open_sock, client_request cop)"
| "traffic_read (Other error sk req) = (error, sk, req)"

definition in_phase :: "session_phase \<Rightarrow> ('w, 'm) run \<Rightarrow> nat \<Rightarrow> bool" where
  "in_phase ph r i \<longleftrightarrow> crashed r = None \<and> i < length (sessions r) \<and> ss_phase (sessions r ! i) = ph"

fun enabled :: "('w, 'm) run \<Rightarrow> event \<Rightarrow> bool" where
  "enabled r (Accept_done error ep i) \<longleftrightarrow> in_phase Accepting r i"
| "enabled r (Read_done i t) \<longleftrightarrow> in_phase Reading r i"

fun event_step ::
  "('w, 'm) deps \<Rightarrow> NginxConfig \<Rightarrow> routes \<Rightarrow> ('w, 'm) run \<Rightarrow> event \<Rightarrow> ('w, 'm) run \<times> response option" where
  "event_step d cfg rs r (Accept_done error ep i) = (handle_accept rs error ep i r, None)"
| "event_step d cfg rs r (Read_done i t) =
     (case traffic_read t of (error, sk, req) \<Rightarrow>
        case handle_read d cfg error sk (set_request req (sessions r ! i)) (sv r) of
          Inl e \<Rightarrow> (r\<lparr>crashed := Some e\<rparr>, None)
        | Inr ro \<Rightarrow>
            (r\<lparr>sessions := (sessions r)[i := ro_session ro], sv := ro_state ro, run_log := run_log r @ ro_log ro\<rparr>,
             ro_response ro))"

text \<open>The executable step is the step relation.\<close>

lemma server_step_iff: "server_step d cfg rs r r' \<longleftrightarrow> (\<exists>ev. enabled r ev \<and> fst (event_step d cfg rs r ev) = r')"
proof
  assume "server_step d cfg rs r r'"
  then show "\<exists>ev. enabled r ev \<and> fst (event_step d cfg rs r ev) = r'"
  proof cases
    case (accepted i error ep)
    then show ?thesis by (intro exI [of _ "Accept_done error ep i"]) (simp add: in_phase_def)
  next
    case (read_done i error sk req ro)
    then show ?thesis by (intro exI [of _ "Read_done i (Other error sk req)"]) (simp add: in_phase_def)
  next
    case (read_thrown i error sk req e)
    then show ?thesis by (intro exI [of _ "Read_done i (Other error sk req)"]) (simp add: in_phase_def)
  qed
next
  assume "\<exists>ev. enabled r ev \<and> fst (event_step d cfg rs r ev) = r'"
  then obtain ev where ev: "enabled r ev" "fst (event_step d cfg rs r ev) = r'" by blast
  then show "server_step d cfg rs r r'"
    by (cases ev) (auto simp: in_phase_def intro: server_step.intros split: prod.splits sum.splits)
qed

text \<open>The answers to the clients of the store in a run; \<open>None\<close> when an event cannot happen.\<close>

fun item_answer :: "event \<Rightarrow> response option \<Rightarrow> (status \<times> string) list" where
  "item_answer (Read_done i (Item cop)) (Some res) = [(res_result res, res_body res)]"
| "item_answer ev res = []"

fun event_run ::
  "('w, 'm) deps \<Rightarrow> NginxConfig \<Rightarrow> routes \<Rightarrow> ('w, 'm) run \<Rightarrow> event list
     \<Rightarrow> (('w, 'm) run \<times> (status \<times> string) list) option" where
  "event_run d cfg rs r [] = Some (r, [])"
| "event_run d cfg rs r (ev # evs) =
     (if enabled r ev then
        (case event_step d cfg rs r ev of (r1, res) \<Rightarrow>
           map_option (apsnd (append (item_answer ev res))) (event_run d cfg rs r1 evs))
      else None)"

lemma event_run_steps: "event_run d cfg rs r evs = Some (r', as) \<Longrightarrow> (server_step d cfg rs)\<^sup>*\<^sup>* r r'"
proof (induction evs arbitrary: r as)
  case (Cons ev evs)
  then obtain as' where en: "enabled r ev" and run: "event_run d cfg rs (fst (event_step d cfg rs r ev)) evs = Some (r', as')"
    by (auto split: if_splits prod.splits)
  from en have "server_step d cfg rs r (fst (event_step d cfg rs r ev))" by (auto simp: server_step_iff)
  then show ?case using Cons.IH [OF run] by (rule converse_rtranclp_into_rtranclp)
qed simp

fun served :: "event list \<Rightarrow> traffic list" where
  "served [] = []"
| "served (Accept_done error ep i # evs) = served evs"
| "served (Read_done i t # evs) = t # served evs"

section \<open>The simulation\<close>

text \<open>What the server and the client see of a read: it does not depend on the address of the peer.\<close>

definition observed :: "('w, 'm) read_outcome result \<Rightarrow> (('w, 'm) server_state \<times> response option) result" where
  "observed r = ebind r (\<lambda>ro. Inr (ro_state ro, ro_response ro))"

lemma observed_write:
  assumes "ss_request ss' = ss_request ss"
  shows "observed (write_to_socket d sk h ss' st) = observed (write_to_socket d sk h ss st)"
  using assms by (auto simp: observed_def write_to_socket_def handle_write_def ebind_def split: sum.split)

lemma observed_log: "observed (ebind r (\<lambda>ro. Inr (ro\<lparr>ro_log := l ro\<rparr>))) = observed r"
  by (cases r) (simp_all add: observed_def)

lemma observed_read:
  assumes "ss_routes ss' = ss_routes ss" and "ss_request ss' = ss_request ss" and "ss_profile ss' = ss_profile ss"
  shows "observed (handle_read d cfg error sk ss' st) = observed (handle_read d cfg error sk ss st)"
proof (cases error)
  case True
  then show ?thesis by (simp add: handle_read_def observed_def)
next
  case False
  have w: "observed (write_to_socket d sk h (ss'\<lparr>ss_profile := p\<rparr>) st1) =
      observed (write_to_socket d sk h (ss\<lparr>ss_profile := p\<rparr>) st1)" for h p st1
    using assms(2) by (intro observed_write) simp
  show ?thesis
    using False assms
    by (auto simp: handle_read_def Let_def ebind_def [of "update_user _ _ _"] ebind_def [of "create _ _ _ _ _ _ _"]
        observed_log w split: option.split sum.split)
qed

lemma observed_connection:
  assumes "session_ok rs ss" and "ss_phase ss = Reading"
  shows "observed (handle_read d cfg error sk (set_request req ss) st) =
    observed (handle_read d cfg error sk (connection rs req) st)"
  using assms by (intro observed_read) (simp_all add: session_ok_def)

lemma observed_Inr: "handle_read d cfg error sk ss st = Inr ro \<Longrightarrow>
    observed (handle_read d cfg error sk ss' st') = observed (handle_read d cfg error sk ss st) \<Longrightarrow>
    \<exists>ro'. handle_read d cfg error sk ss' st' = Inr ro' \<and> ro_state ro' = ro_state ro \<and> ro_response ro' = ro_response ro"
  by (cases "handle_read d cfg error sk ss' st'") (simp_all add: observed_def)

lemma observed_Inl: "handle_read d cfg error sk ss st = Inl e \<Longrightarrow>
    observed (handle_read d cfg error sk ss' st') = observed (handle_read d cfg error sk ss st) \<Longrightarrow>
    handle_read d cfg error sk ss' st' = Inl e"
  by (cases "handle_read d cfg error sk ss' st'") (simp_all add: observed_def)

lemma open_answered:
  assumes "handle_read d cfg False open_sock ss st = Inr ro"
  obtains res where "ro_response ro = Some res" and "ss_phase (ro_session ro) = Closed"
  using assms
proof (cases rule: handle_readE)
  case (served b profile f h st1 ro1)
  from served(5) show thesis by (cases rule: write_to_socketE) (use served(6) that in \<open>auto simp: open_sock_def\<close>)
qed simp

text \<open>One read in a run is one request of the traffic.\<close>

lemma traffic_exec_read:
  assumes ok: "session_ok rs (sessions r ! i)" "ss_phase (sessions r ! i) = Reading"
    and step: "event_step d cfg rs r (Read_done i t) = (r1, res)" and run: "crashed r = None"
  shows "traffic_exec d cfg rs (sv r) t =
    (case crashed r1 of Some e \<Rightarrow> Inl e | None \<Rightarrow> Inr (sv r1, item_answer (Read_done i t) res)) \<and>
    (crashed r1 \<noteq> None \<longrightarrow> sv r1 = sv r \<and> res = None)"
proof -
  obtain error sk req where t: "traffic_read t = (error, sk, req)" by (cases "traffic_read t") auto
  let ?read = "handle_read d cfg error sk (set_request req (sessions r ! i)) (sv r)"
  note obs = observed_connection [OF ok, of d cfg error sk req "sv r", symmetric]
  show ?thesis
  proof (cases ?read)
    case (Inl e)
    with step t run have "r1 = r\<lparr>crashed := Some e\<rparr>" "res = None" by auto
    with observed_Inl [OF Inl obs] t show ?thesis by (cases t) (auto simp: server_exec_def)
  next
    case (Inr ro)
    with step t run have r1: "sv r1 = ro_state ro" "crashed r1 = None" "res = ro_response ro" by auto
    from observed_Inr [OF Inr obs] obtain ro' where
      c: "handle_read d cfg error sk (connection rs req) (sv r) = Inr ro'" "ro_state ro' = ro_state ro"
        "ro_response ro' = ro_response ro" by blast
    show ?thesis
    proof (cases t)
      case (Item cop)
      with t c obtain x where "ro_response ro = Some x" using open_answered by (metis Pair_inject traffic_read.simps(1))
      with Item t c r1 show ?thesis by (auto simp: server_exec_def)
    qed (use t c r1 in auto)
  qed
qed

lemma store_run_append:
  "store_run root \<sigma> xs as \<sigma>1 \<Longrightarrow> store_run root \<sigma>1 ys bs \<sigma>2 \<Longrightarrow> store_run root \<sigma> (xs @ ys) (as @ bs) \<sigma>2"
  by (induction rule: store_run.induct) (auto intro: run_cons)

fun reads_other :: "event \<Rightarrow> bool" where
  "reads_other (Read_done i t) \<longleftrightarrow> is_other t"
| "reads_other (Accept_done error ep i) \<longleftrightarrow> False"

lemma event_run_crashed: "event_run d cfg rs r evs = Some (r', as) \<Longrightarrow> crashed r \<noteq> None \<Longrightarrow> evs = [] \<and> r' = r \<and> as = []"
  by (cases evs; cases "hd evs") (auto simp: in_phase_def split: if_splits)

lemma event_run_refines:
  assumes "\<forall>ss \<in> set (sessions r). session_ok rs ss" and "crashed r = None"
    and "server_rep d cfg rs E n (sv r) \<sigma>" and "list_all (traffic_ok d cfg rs E) (served evs)"
    and "n + length (item_ops (served evs)) \<le> id_cap" and "event_run d cfg rs r evs = Some (r', answers)"
  shows "\<exists>\<sigma>'. store_run (get_root cfg ''/api'') \<sigma> (item_ops (served evs)) answers \<sigma>' \<and>
    server_rep d cfg rs E (n + length (item_ops (served evs))) (sv r') \<sigma>' \<and>
    (crashed r' \<noteq> None \<longrightarrow> evs \<noteq> [] \<and> reads_other (last evs))"
  using assms
proof (induction evs arbitrary: r n \<sigma> answers)
  case Nil
  then show ?case by (auto intro: run_nil)
next
  case (Cons ev evs)
  obtain r1 res where st: "event_step d cfg rs r ev = (r1, res)" by (cases "event_step d cfg rs r ev")
  with Cons.prems(6) obtain as where en: "enabled r ev" and run: "event_run d cfg rs r1 evs = Some (r', as)"
    and as: "answers = item_answer ev res @ as" by (auto split: if_splits)
  have step: "server_step d cfg rs r r1" using en st by (auto simp: server_step_iff intro!: exI [of _ ev])
  note IH = Cons.IH [OF step_sessions_ok [OF step Cons.prems(1)] _ _ _ _ run]
  show ?case
  proof (cases ev)
    case (Accept_done error ep i)
    with st Cons.prems(2) have "sv r1 = sv r" "crashed r1 = None" by (auto simp: handle_accept_simps)
    with IH [of n \<sigma>] Cons.prems(3-5) Accept_done as run show ?thesis by auto
  next
    case (Read_done i t)
    with en Cons.prems(1) have "session_ok rs (sessions r ! i)" "ss_phase (sessions r ! i) = Reading"
      by (auto simp: in_phase_def)
    note ex = traffic_exec_read [OF this st [unfolded Read_done] Cons.prems(2)]
    have t: "traffic_ok d cfg rs E t" "list_all (traffic_ok d cfg rs E) (served evs)"
      "n + length (item_op t) + length (item_ops (served evs)) \<le> id_cap"
      using Cons.prems(4,5) Read_done by simp_all
    have n: "n + length (item_op t) \<le> id_cap" using t(3) by simp
    note rf = traffic_refines [OF Cons.prems(3) t(1) n]
    show ?thesis
    proof (cases "crashed r1")
      case None
      with rf ex obtain \<sigma>1 where \<sigma>1: "store_run (get_root cfg ''/api'') \<sigma> (item_op t) (item_answer ev res) \<sigma>1"
        "server_rep d cfg rs E (n + length (item_op t)) (sv r1) \<sigma>1" by (auto simp: Read_done)
      from IH [OF None \<sigma>1(2) t(2,3)] obtain \<sigma>' where
        "store_run (get_root cfg ''/api'') \<sigma>1 (item_ops (served evs)) as \<sigma>'"
        "server_rep d cfg rs E (n + length (item_op t) + length (item_ops (served evs))) (sv r') \<sigma>'"
        "crashed r' \<noteq> None \<longrightarrow> evs \<noteq> [] \<and> reads_other (last evs)" by blast
      with store_run_append [OF \<sigma>1(1) this(1)] Read_done as show ?thesis
        by (auto simp: add.assoc)
    next
      case (Some e)
      with event_run_crashed [OF run] have "evs = []" "r' = r1" "as = []" by auto
      moreover from Some ex rf have "is_other t" "sv r1 = sv r" "res = None" by auto
      ultimately show ?thesis using Read_done as Cons.prems(3) by (cases t) (auto intro: run_nil)
    qed
  qed
qed

section \<open>Properties\<close>

text \<open>
  C1. The items survive whatever else happens to the server. In a run many connections are open at
  once and their reads complete in any order. Between the requests of the clients of the store
  come requests of any kind to any other location: pages, files, logins, signups that write a
  database outside the tree of the API, requests without a login that the API refuses; accepts
  and reads that fail, peers that are gone. The clients are answered as the specification of
  the store says for their requests alone, in the order in which they were read; and when an
  exception ends the run, one of the others has thrown it.
\<close>

theorem run_implements_store:
  assumes "server_rep d cfg rs E n st \<sigma>" and "list_all (traffic_ok d cfg rs E) (served evs)"
    and "n + length (item_ops (served evs)) \<le> id_cap"
    and "event_run d cfg rs (first_run rs st) evs = Some (r, answers)"
  shows "\<exists>\<sigma>'. store_run (get_root cfg ''/api'') \<sigma> (item_ops (served evs)) answers \<sigma>' \<and>
    server_rep d cfg rs E (n + length (item_ops (served evs))) (sv r) \<sigma>' \<and>
    (crashed r \<noteq> None \<longrightarrow> reads_other (last evs))"
proof -
  have "\<forall>ss \<in> set (sessions (first_run rs st)). session_ok rs ss" "crashed (first_run rs st) = None"
    "sv (first_run rs st) = st" by (simp_all add: first_run_def start_accept_def session_ok_def)
  from event_run_refines [OF this(1,2) _ assms(2-4), of \<sigma>] this(3) assms(1) show ?thesis by auto
qed

text \<open>
  C2. The server stays available. Take a run that starts in a state that represents a store, that
  handles one event at a time, and whose requests are those of clients of the store or of
  bystanders: any requests to other locations, with user databases outside the tree of the API,
  and requests to the API that come without a login. Wherever such a run has got to without a
  crash, some session waits for a connection; a client of the store that connects can send its
  request, whatever the other connections are doing, is answered as the store allows after the
  requests so far, and its connection is closed.
\<close>

theorem client_is_served:
  assumes rep: "server_rep d cfg rs E n st \<sigma>" and traffic: "list_all (traffic_ok d cfg rs E) (served evs)"
    and n: "n + length (item_ops (served evs)) < id_cap"
    and run: "event_run d cfg rs (first_run rs st) evs = Some (r, answers)" and alive: "crashed r = None"
    and ok: "server_client_ok E cop"
  shows "\<exists>i r1 r2 res \<sigma>1 \<sigma>2. enabled r (Accept_done False ep i) \<and> event_step d cfg rs r (Accept_done False ep i) = (r1, None) \<and>
    enabled r1 (Read_done i (Item cop)) \<and> event_step d cfg rs r1 (Read_done i (Item cop)) = (r2, Some res) \<and>
    crashed r2 = None \<and> ss_phase (sessions r2 ! i) = Closed \<and>
    store_run (get_root cfg ''/api'') \<sigma> (item_ops (served evs)) answers \<sigma>1 \<and>
    store_step (get_root cfg ''/api'') \<sigma>1 cop \<sigma>2 (res_result res) (res_body res)"
proof -
  have reach: "reachable d cfg rs st r" unfolding reachable_def by (rule event_run_steps [OF run])
  from reachable_accepting [OF reach] have "filter (\<lambda>ss. ss_phase ss = Accepting) (sessions r) \<noteq> []"
    by (auto simp: accepting_def)
  then obtain i where i: "i < length (sessions r)" "ss_phase (sessions r ! i) = Accepting"
    by (auto simp: filter_empty_conv in_set_conv_nth)
  define r1 where "r1 = handle_accept rs False ep i r"
  have en: "enabled r (Accept_done False ep i)" using i alive by (simp add: in_phase_def)
  have "server_step d cfg rs r r1" using en by (auto simp: server_step_iff r1_def intro!: exI [of _ "Accept_done False ep i"])
  with reach have ok1: "\<forall>ss \<in> set (sessions r1). session_ok rs ss"
    by (meson reachable_sessions_ok step_sessions_ok)
  have r1: "i < length (sessions r1)" "ss_phase (sessions r1 ! i) = Reading" "crashed r1 = None" "sv r1 = sv r"
    using i alive by (simp_all add: r1_def handle_accept_simps nth_append)
  obtain r2 res where st: "event_step d cfg rs r1 (Read_done i (Item cop)) = (r2, res)" by (cases "event_step d cfg rs r1 (Read_done i (Item cop))")
  have first: "\<forall>ss \<in> set (sessions (first_run rs st)). session_ok rs ss" "crashed (first_run rs st) = None"
    "sv (first_run rs st) = st" by (simp_all add: first_run_def start_accept_def session_ok_def)
  from event_run_refines [OF first(1,2) _ traffic _ run, of n \<sigma>] rep n first(3) obtain \<sigma>1 where
    run1: "store_run (get_root cfg ''/api'') \<sigma> (item_ops (served evs)) answers \<sigma>1"
    and rep1: "server_rep d cfg rs E (n + length (item_ops (served evs))) (sv r1) \<sigma>1" by (auto simp: r1)
  from server_store.step_law [OF rep1 n ok] obtain st' \<sigma>2 code b where
    ex: "server_exec d cfg rs (sv r1) cop = Inr (st', code, b)" and step: "store_step (get_root cfg ''/api'') \<sigma>1 cop \<sigma>2 code b" by blast
  have "session_ok rs (sessions r1 ! i)" using ok1 r1(1) by simp
  note read = traffic_exec_read [OF this r1(2) st r1(3)]
  from read ex have alive2: "crashed r2 = None" and "item_answer (Read_done i (Item cop)) res = [(code, b)]"
    by (auto split: option.splits)
  then obtain x where x: "res = Some x" "res_result x = code" "res_body x = b" by (cases res) auto
  have "ss_phase (sessions r2 ! i) = Closed"
    using st alive2 r1(1) by (auto elim: open_answered split: sum.splits)
  with en r1 st x alive2 run1 step show ?thesis
    by (intro exI [of _ i] exI [of _ r1] exI [of _ r2] exI [of _ x] exI [of _ \<sigma>1] exI [of _ \<sigma>2])
      (simp add: r1_def in_phase_def)
qed

section \<open>Instances\<close>

text \<open>A signup and a refused POST of a visitor come between a POST and a GET.\<close>

definition demo_traffic_config :: NginxConfig where
  "demo_traffic_config = \<lparr>statements = [],
     paths = [new_path\<lparr>p_type := Ep_api, p_endpoint := ''/api'', p_root := ''r''\<rparr>,
       new_path\<lparr>p_type := Ep_auth, p_endpoint := ''/auth'', p_map := [''data_path'' \<mapsto> ''d'', ''signup'' \<mapsto> ''/signup'']\<rparr>]\<rparr>"

definition demo_traffic_routes :: routes where
  "demo_traffic_routes = [''/api'' \<mapsto> Api_factory, ''/auth'' \<mapsto> Auth_factory, ''/'' \<mapsto> Factory_404]"

definition demo_signup :: request where
  "demo_signup = (api_request Verb_post [] ''n|p|e'')\<lparr>req_target := ''/auth/signup-submit''\<rparr>"

text \<open>Four connections are open at once; the read of the second one completes first, one accept fails.\<close>

definition demo_events :: "event list" where
  "demo_events =
     [Accept_done False None 0, Accept_done False (Some ''10.0.0.7'') 1, Accept_done False None 2, Accept_done False None 3,
      Read_done 1 (Item (demo_user, Post ''S'' ''a'')), Read_done 0 (Other False open_sock demo_signup),
      Accept_done True None 4, Read_done 3 (Other False open_sock (api_request Verb_post ''S'' ''b'')),
      Read_done 2 (Item (demo_visitor, Get ''S'' 1))]"

lemma demo_traffic_rep: "server_rep demo_deps demo_traffic_config demo_traffic_routes {''S''} 0 demo_store_state Map.empty"
  using demo_store_env fresh_root [OF demo_store_env(1,6-8)]
  by (simp add: server_rep_def api_part_def demo_traffic_config_def get_root_def demo_traffic_routes_def api_routed_def prefix_def)

lemma demo_traffic_ok: "list_all (traffic_ok demo_deps demo_traffic_config demo_traffic_routes {''S''}) (served demo_events)"
proof -
  have route: "match_route demo_traffic_routes ''/auth/signup-submit'' = ''/auth''"
    "match_route demo_traffic_routes ''/api/S'' = ''/api''" by code_simp+
  have factory: "demo_traffic_routes ''/auth'' = Some Auth_factory" "demo_traffic_routes ''/api'' = Some Api_factory"
    by (simp_all add: demo_traffic_routes_def)
  have out: "outside mem_fs ''r'' {''S''} (auth_database demo_traffic_config ''/auth'')"
    by (rule mem_outside) (simp_all add: auth_database_def data_path_def get_auth_path_map_def map_get_def
        demo_traffic_config_def new_path_def)
  have root: "get_root demo_traffic_config ''/api'' = ''r''" by (simp add: demo_traffic_config_def get_root_def)
  have "bystander demo_deps demo_traffic_config demo_traffic_routes {''S''} demo_signup"
    using out by (simp add: bystander_def Let_def demo_signup_def route factory root demo_deps_def)
  moreover have "bystander demo_deps demo_traffic_config demo_traffic_routes {''S''} (api_request Verb_post ''S'' ''b'')"
    by (simp add: bystander_def Let_def route factory demo_deps_def demo_param_list_def)
  ultimately show ?thesis by (simp add: demo_events_def demo_clients in_int_code)
qed


lemma demo_event_run:
  "map_option (\<lambda>(r, answers). (crashed r, answers))
     (event_run demo_deps demo_traffic_config demo_traffic_routes (first_run demo_traffic_routes demo_store_state) demo_events) =
   Some (None, [(Status_created, created_body ''r/S'' 1), (Status_ok, ''a'')])"
  by code_simp

lemma run_implements_store_witness:
  "\<exists>r \<sigma>'. event_run demo_deps demo_traffic_config demo_traffic_routes (first_run demo_traffic_routes demo_store_state) demo_events =
       Some (r, [(Status_created, created_body ''r/S'' 1), (Status_ok, ''a'')]) \<and>
     store_run (get_root demo_traffic_config ''/api'') Map.empty (item_ops (served demo_events))
       [(Status_created, created_body ''r/S'' 1), (Status_ok, ''a'')] \<sigma>' \<and>
     server_rep demo_deps demo_traffic_config demo_traffic_routes {''S''} 2 (sv r) \<sigma>'"
proof -
  obtain r where run: "event_run demo_deps demo_traffic_config demo_traffic_routes
      (first_run demo_traffic_routes demo_store_state) demo_events =
        Some (r, [(Status_created, created_body ''r/S'' 1), (Status_ok, ''a'')])"
    using demo_event_run by auto
  have "length (item_ops (served demo_events)) = 2" by (simp add: demo_events_def)
  with run_implements_store [OF demo_traffic_rep demo_traffic_ok _ run] run show ?thesis
    by (auto simp: id_cap_def numeral_2_eq_2)
qed

lemma client_is_served_witness:
  "\<exists>r i r1 r2 res \<sigma>1 \<sigma>2.
     event_run demo_deps demo_traffic_config demo_traffic_routes (first_run demo_traffic_routes demo_store_state) demo_events =
       Some (r, [(Status_created, created_body ''r/S'' 1), (Status_ok, ''a'')]) \<and>
     event_step demo_deps demo_traffic_config demo_traffic_routes r (Accept_done False None i) = (r1, None) \<and>
     event_step demo_deps demo_traffic_config demo_traffic_routes r1 (Read_done i (Item (demo_visitor, List ''S''))) = (r2, Some res) \<and>
     store_step (get_root demo_traffic_config ''/api'') \<sigma>1 (demo_visitor, List ''S'') \<sigma>2 (res_result res) (res_body res)"
proof -
  obtain r where run: "event_run demo_deps demo_traffic_config demo_traffic_routes
      (first_run demo_traffic_routes demo_store_state) demo_events =
        Some (r, [(Status_created, created_body ''r/S'' 1), (Status_ok, ''a'')])" and alive: "crashed r = None"
    using demo_event_run by auto
  have n: "0 + length (item_ops (served demo_events)) < id_cap" by (simp add: demo_events_def id_cap_def)
  have ok: "server_client_ok {''S''} (demo_visitor, List ''S'')" by (simp add: demo_clients)
  from client_is_served [OF demo_traffic_rep demo_traffic_ok n run alive ok, of None] run show ?thesis by blast
qed

end
