(* ===== verification/Spec2Isabelle.thy ===== *)
theory Spec2Isabelle
  imports Reply Mime_Types Request_Parser Api_Threads Profile_Threads Server_Invariants Server_Runs
begin

text \<open>
  A verification development of a web server written in C++ on Boost
  (\<^verbatim>\<open>src/src\<close>, \<^verbatim>\<open>src/include\<close>).

  \<^bold>\<open>The program.\<close> \<^verbatim>\<open>main\<close> reads an nginx-style config, builds a table of routes from it and
  accepts connections. A session reads one request (Boost.Beast), finds the user in the
  Cookie field, chooses a route by longest prefix, lets the route's factory create a handler,
  and writes the handler's response. Handlers serve static files, echo the request, report
  health, sleep, manage numbered items on disk (the API), register users and log them in, and
  show a console page. A timer limits the number of log files.

  \<^bold>\<open>The theories,\<close> in the order of the calls from below:
  \<^item> \<open>Prelude\<close>: outcomes of code that may throw (\<open>Inl\<close> an error, \<open>Inr\<close> a value; undefined
    behaviour is an error value too), the range of \<^verbatim>\<open>int\<close>, the functions of
    \<^verbatim>\<open>std::string\<close>, \<^verbatim>\<open>std::stoi\<close>, \<^verbatim>\<open>std::to_string\<close>, \<^verbatim>\<open>std::getline\<close> that the sources call.
  \<^item> \<open>Http\<close>: requests, responses, \<^verbatim>\<open>user_profile\<close>, and the locale \<open>request_handler\<close>, the
    contract of \<^verbatim>\<open>request_handler.h\<close>: the returned status is the one of the response, and a
    Content-Length is the size of the body. It is interpreted for every handler and for the
    virtual call.
  \<^item> \<open>Reply\<close>, \<open>Mime_Types\<close>: \<^verbatim>\<open>reply.cc\<close>, \<^verbatim>\<open>mime_types.cc\<close>.
  \<^item> \<open>Request_Parser\<close>: the state machine of \<^verbatim>\<open>request_parser.cc\<close>, one equation per state.
    A printed request is parsed back; a request reported as good is well formed; pieces parse
    like the whole; the only undefined behaviour is the overflow of a version number.
  \<^item> \<open>Config_Lexer\<close>, \<open>Config_Parser\<close>, \<open>Config_Query\<close>: \<^verbatim>\<open>config_parser.cc\<close>. Tokenizer, parser
    with its stack, printer, and the queries for port, root, maps and paths. Printing and
    parsing are inverse; an unmatched brace is the only undefined behaviour of the parser; the
    queries stay within bounds exactly on readable statements.
  \<^item> \<open>Filesystem\<close>: Boost.Filesystem and the file streams as a parameter (record \<open>fs_ops\<close>) with
    documented laws (\<open>fs_lawful\<close>) and an instance in memory. The queries may throw.
  \<^item> \<open>Id_Allocator\<close>: the lists of IDs in \<^verbatim>\<open>path_counts\<close>; locale \<open>id_allocator\<close>: what is handed
    out is not in use, for lists that started empty.
  \<^item> \<open>Api_Handler\<close>: \<^verbatim>\<open>request_api_handler.cc\<close>, constructor and all operations. Items written
    can be read, deleted items cannot; only logged-in clients change anything.
  \<^item> \<open>Api_Store\<close>: the abstract specification of the API, a map from entities to maps from IDs to
    contents with a step relation; locale \<open>item_store\<close>: a simulation of it. The handler,
    constructed anew for every request, is an instance over a disk that works (\<open>storage_ok\<close>):
    every sequence of requests is answered as the specification allows.
  \<^item> \<open>Threads\<close>: threads as sequences of single accesses to a shared state, alone and interleaved;
    what a thread does alone it can do while the others wait.
  \<^item> \<open>Api_Threads\<close>: the API handler access by access. Alone it is the handler of \<open>Api_Handler\<close>;
    with others it can go wrong: any two requests race on \<^verbatim>\<open>path_counts\<close>, two POSTs can get one
    ID, a deleted ID can come back, a GET can read the file a PUT has just truncated.
  \<^item> \<open>Simple_Handlers\<close>: static files, echo, health, sleep, 404, error, console.
  \<^item> \<open>Profile_Manager\<close>: \<^verbatim>\<open>profile_manager.cc\<close> over the text file; locale \<open>user_store\<close>: the
    operations implement a list of users (refinement by the relation \<open>db_file\<close>).
  \<^item> \<open>Profile_Threads\<close>: signups access by access: when two read the database before either writes
    the file is no database any more, and of the first two signups one can be lost.
  \<^item> \<open>Auth_Handler\<close>: \<^verbatim>\<open>request_authentication_handler.cc\<close>; the SMTP session is a parameter.
  \<^item> \<open>Routing\<close>: \<^verbatim>\<open>init_server\<close>, the factories, \<^verbatim>\<open>session::match\<close>, dispatch to the handlers.
  \<^item> \<open>Session\<close>: \<^verbatim>\<open>session.cc\<close> with its log lines and the accept loop of \<^verbatim>\<open>server.cc\<close> as a step
    relation over all sessions; invariants by induction over reachable states; requests that
    end the process.
  \<^item> \<open>Server_Main\<close>: \<^verbatim>\<open>server_main.cc\<close>: start-up, the 16-bit port, signals; the timer
    bounds the number of log files as long as no minute brings more than one.
  \<^item> \<open>Server_Invariants\<close>: invariants of the runs: a started server has a factory for every
    request; the IDs of the model stay in the range of an \<^verbatim>\<open>int\<close>.
  \<^item> \<open>Server_Store\<close>: the whole server, from the cookie to the disk, as a second instance of
    \<open>item_store\<close>.
  \<^item> \<open>Server_Traffic\<close>: the frame between the handlers that share the disk: requests to other
    locations (signups included, with a database outside the tree of the API) and requests to the
    API without a login do not disturb the items.
  \<^item> \<open>Server_Runs\<close>: the runs of the event loop as an executable function, one event at a time;
    every run with such traffic, with many open connections, is a run of the store for the
    requests of the API's clients.
  \<^item> this theory: properties that span all of them, up to signup, login and a POST.

  \<^bold>\<open>Bounds.\<close> The loops of the sources end, and the recursions carry termination proofs (the
  position in a string, the length of the rest). Only \<open>match_iter\<close> takes a bound on the number
  of iterations; \<open>match_terminates\<close> says which bound is always enough. Integers are
  mathematical ones with an explicit range test where the source computes with \<^verbatim>\<open>int\<close>;
  the port conversion uses 16-bit words. Positions and sizes are natural numbers: no input is
  so large that \<^verbatim>\<open>size_t\<close> would wrap, except \<^verbatim>\<open>npos + 1\<close>, which is modelled.

  \<^bold>\<open>What is not modelled.\<close> Boost.Asio and Beast (sockets, timers, HTTP parsing and
  serialisation), OpenSSL's SHA-256 and Poco's SMTP client are parameters. Of the log output
  the lines of the session and of \<^verbatim>\<open>log_message_info\<close> are modelled, and the parameters
  \<^verbatim>\<open>log_init\<close> passes to the log library; other messages are left out. \<^verbatim>\<open>main\<close> runs
  the event loop on as many threads as there are cores. The theorems about runs and about
  sequences of requests take events one at a time, which is exact for one thread. What several
  threads can do to each other is modelled where they share state, in \<open>Api_Threads\<close> and
  \<open>Profile_Threads\<close>, with single accesses as steps (the opening of an output file and the write
  to it are two; a walk over a directory, the reading of a file, one use of \<^verbatim>\<open>path_counts\<close> are
  taken as one each). These steps are coarser than those of the program, so the model is used to
  exhibit schedules that go wrong, and for no claim that one goes well. Requests of a logged-in
  client to the API that are not of the form of the store's (with \<^verbatim>\<open>.\<close> or \<^verbatim>\<open>..\<close> in the target, for
  instance, which \<^verbatim>\<open>handle_put\<close> follows) are outside the theorems about the store. An exception
  ends the process: its value says which one it is, not what was already written to the disk
  before it. The unit tests and their mock of a session are left out. The members of the session that are never
  used (its \<^verbatim>\<open>request_parser\<close>, its buffer) are left out, as is the string \<^verbatim>\<open>handle_read\<close>
  returns to its tests.
\<close>

section \<open>From the socket to the disk and back\<close>

text \<open>Reading an item that was written to the disk and registered.\<close>

lemma read_written_item:
  assumes fs: "fs_lawful (d_fs d)" and anon: "''crazyCode'' \<notin> fst ` set (d_param_list d '';'')"
    and route: "match_route rs (''/api/'' @ dir @ ''/'' @ to_string j) = loc" "rs loc = Some Api_factory"
    and load: "api_load (d_fs d) (get_root cfg loc) \<lparr>world = sv_world st, path_counts = sv_counts st loc\<rparr> = Inr s1"
    and cw: "fs_can_write (d_fs d) w (get_root cfg loc @ ''/'' @ dir @ ''/'' @ to_string j)"
    and wr: "sv_world st = fs_write (d_fs d) w (get_root cfg loc @ ''/'' @ dir @ ''/'' @ to_string j) b"
    and j: "registered (sv_counts st loc) dir j" "in_int j"
  shows "\<exists>ro res. handle_read d cfg False open_sock
      (connection rs (api_request Verb_get (dir @ ''/'' @ to_string j) [])) st = Inr ro \<and>
    ro_response ro = Some res \<and> res_result res = Status_ok \<and> res_body res = b"
proof -
  let ?d = "dir @ ''/'' @ to_string j"
  define g where "g = \<lparr>api_location = loc, api_root = get_root cfg loc, api_url = ''/api/'' @ ?d, api_profile = initial_profile\<rparr>"
  have w1: "world s1 = fs_write (d_fs d) w (item_path g dir j) b" and r1: "registered (path_counts s1) dir j"
    using load wr j(1) by (elim api_loadE, simp add: item_path_def g_def)+
  have "fs_can_write (d_fs d) w (item_path g dir j)" using cw by (simp add: item_path_def g_def)
  from written_item_get [OF fs this w1 r1 j(2)]
  have "api_handle_request (d_fs d) g s1 (api_request Verb_get ?d []) new_response =
      Inr (send_ok g s1 b new_response)" by (simp add: api_handle_request_item)
  moreover have "update_user (d_param_list d) [] initial_profile = Inr (False, initial_profile)"
    using anon by (simp add: update_user_def user_loop_absent)
  ultimately show ?thesis
    using read_api_request [of d "api_request Verb_get ?d []" False initial_profile rs loc cfg st s1] route load
    by (auto simp: g_def)
qed

text \<open>
  A logged-in user posts and everybody can read, through the whole server: a POST
  that carries the login cookie is answered with 201 and a GET of the new item without any
  cookie, on the state the first request left, is answered with 200 and the posted body,
  whenever the handler of the second request can be constructed.
\<close>

theorem post_with_cookie_then_get:
  assumes fs: "fs_lawful (d_fs d)" and pl: "param_list_ok (d_param_list d)"
    and anon: "''crazyCode'' \<notin> fst ` set (d_param_list d '';'')"
    and user: "in_int i" "CHR ''|'' \<notin> set name" "CHR ''|'' \<notin> set e" "e \<noteq> []"
      "\<forall>c \<in> set name \<union> set e. quotable c"
    and dir: "dir \<noteq> []" "CHR ''/'' \<notin> set dir"
    and route: "match_route rs (''/api/'' @ dir) = loc" "rs loc = Some Api_factory"
      "\<forall>j. match_route rs (''/api/'' @ dir @ ''/'' @ to_string j) = loc"
    and load: "api_load (d_fs d) root \<lparr>world = sv_world st, path_counts = sv_counts st loc\<rparr> = Inr sl"
    and root: "get_root cfg loc = root"
    and ids: "\<forall>x \<in> set (ids_of (path_counts sl) dir). int_min \<le> x \<and> x < int_max"
    and mk: "ensure_directory (d_fs d) (sv_world st) (root @ ''/'' @ dir) = Inr (w, False)"
    and cw: "\<forall>j. fs_can_write (d_fs d) w (root @ ''/'' @ dir @ ''/'' @ to_string j)"
  shows "\<exists>ro res j.
     handle_read d cfg False open_sock
       (connection rs (api_post dir (''crazyCode='' @ cookie_text i name e) b)) st = Inr ro \<and>
     ro_response ro = Some res \<and> res_result res = Status_created \<and>
     (\<forall>s2. api_load (d_fs d) root
          \<lparr>world = sv_world (ro_state ro), path_counts = sv_counts (ro_state ro) loc\<rparr> = Inr s2 \<longrightarrow>
        (\<exists>ro2 res2. handle_read d cfg False open_sock
            (connection rs (api_request Verb_get (dir @ ''/'' @ to_string j) [])) (ro_state ro) = Inr ro2 \<and>
          ro_response ro2 = Some res2 \<and> res_result res2 = Status_ok \<and> res_body res2 = b))"
proof -
  define p where "p = initial_profile\<lparr>user_id := i, username := name, email := e, login_status := True\<rparr>"
  have up: "update_user (d_param_list d) (''crazyCode='' @ cookie_text i name e) initial_profile = Inr (True, p)"
    unfolding p_def using pl user by (rule cookie_profile)
  define h where "h = \<lparr>api_location = loc, api_root = root, api_url = ''/api/'' @ dir, api_profile = p\<rparr>"
  have login: "login_status (api_profile h)" by (simp add: h_def p_def)
  have w1: "world sl = sv_world st" using load by (elim api_loadE) simp
  obtain j ids' where "next_id (ids_of (path_counts sl) dir) = Inr (j, ids')" using next_id_total [OF ids] by blast
  then obtain pc where n: "get_next_id (path_counts sl) dir = Inr (j, pc)" by (simp add: get_next_id_def)
  define s2 where "s2 = sl\<lparr>world := fs_write (d_fs d) w (item_path h dir j) b, path_counts := pc\<rparr>"
  define out where "out = outcome_of s2 (finish Status_created (created_body (root @ ''/'' @ dir) j) ''text/html'' new_response)
    [api_log h ''200'']"
  have "handle_post (d_fs d) h sl (api_request Verb_post dir b) new_response dir = Inr out"
    using handle_post_result [of "d_fs d" sl h dir w j pc] mk n
    by (simp add: w1 h_def out_def s2_def)
  then have "api_handle_request (d_fs d) h sl (api_post dir c b) new_response = Inr out" for c
    using dir login by (simp add: api_post_def api_handle_request_entity)
  then obtain ro where post: "handle_read d cfg False open_sock
      (connection rs (api_post dir (''crazyCode='' @ cookie_text i name e) b)) st = Inr ro"
      "ro_response ro = Some (out_res out)"
      "ro_state ro = st\<lparr>sv_world := world s2, sv_counts := (sv_counts st)(loc := path_counts s2)\<rparr>"
    using read_api_request [of d "api_post dir (''crazyCode='' @ cookie_text i name e) b" True p rs loc cfg st sl out]
      up route(1,2) load root by (auto simp: h_def out_def)
  define st2 where "st2 = st\<lparr>sv_world := world s2, sv_counts := (sv_counts st)(loc := path_counts s2)\<rparr>"
  have reg: "registered (sv_counts st2 loc) dir j"
    using get_next_id_registered(2) [OF n, of dir j] by (simp add: st2_def s2_def)
  have get: "\<exists>ro2 res2. handle_read d cfg False open_sock
            (connection rs (api_request Verb_get (dir @ ''/'' @ to_string j) [])) st2 = Inr ro2 \<and>
          ro_response ro2 = Some res2 \<and> res_result res2 = Status_ok \<and> res_body res2 = b"
    if "api_load (d_fs d) root \<lparr>world = sv_world st2, path_counts = sv_counts st2 loc\<rparr> = Inr s3" for s3
    using route(2,3) that cw reg get_next_id_registered(1) [OF n]
    by (intro read_written_item [OF fs anon, of rs dir j loc cfg st2 s3 w b])
      (simp_all add: root st2_def s2_def item_path_def h_def)
  from post get show ?thesis unfolding st2_def by (auto simp: out_def)
qed

section \<open>From the signup page to the API\<close>

text \<open>The handler of an authentication location, for any url.\<close>

lemma auth_create_url:
  assumes "auth_create cfg loc [] initial_profile = H_auth h"
  shows "auth_create cfg loc url initial_profile = H_auth (h\<lparr>auth_url := url\<rparr>)" and "auth_location h = loc"
  using assms by (auto simp: Let_def)

lemma auth_post_url [simp]: "auth_post (h\<lparr>auth_url := url\<rparr>) sub b = auth_post h sub b"
  by (simp add: auth_post_def)

lemma routes_ok_url [simp]: "routes_ok (h\<lparr>auth_url := url\<rparr>) = routes_ok h"
  by (simp add: routes_ok_def)

lemma read_auth_request:
  assumes h: "auth_create cfg loc [] initial_profile = H_auth h"
    and anon: "''crazyCode'' \<notin> fst ` set (d_param_list d '';'')"
    and route: "match_route rs (loc @ sub) = loc" "rs loc = Some Auth_factory"
    and out: "auth_handle_request (d_fs d) (d_sha256 d) (d_smtp d) (h\<lparr>auth_url := loc @ sub\<rparr>)
      \<lparr>auth_world = sv_world st, auth_mail = sv_mail st\<rparr> (auth_post h sub b) new_response = Inr out"
  shows "\<exists>ro. handle_read d cfg False open_sock (connection rs (auth_post h sub b)) st = Inr ro \<and>
    ro_response ro = Some (out_res out) \<and>
    ro_state ro = st\<lparr>sv_world := auth_world (out_state out), sv_mail := auth_mail (out_state out)\<rparr>"
proof -
  have t: "req_target (auth_post h sub b) = loc @ sub" "req_cookie (auth_post h sub b) = []"
    using auth_create_url(2) [OF h] by (simp_all add: auth_post_def)
  have u: "update_user (d_param_list d) [] initial_profile = Inr (False, initial_profile)"
    using anon by (simp add: update_user_def user_loop_absent)
  have c: "create (d_fs d) cfg Auth_factory loc (loc @ sub) initial_profile st = Inr (H_auth (h\<lparr>auth_url := loc @ sub\<rparr>), st)"
    using auth_create_url(1) [OF h] by (simp del: create_defs)
  have "handle_read d cfg False open_sock (connection rs (auth_post h sub b)) st =
      ebind (write_to_socket d open_sock (H_auth (h\<lparr>auth_url := loc @ sub\<rparr>))
          ((connection rs (auth_post h sub b))\<lparr>ss_profile := initial_profile\<rparr>) st) (\<lambda>ro. Inr (ro\<lparr>ro_log := log_info (connection rs (auth_post h sub b)) ''handle_read'' ''request parser valid'' # ro_log ro\<rparr>))"
    using t u c route by (simp add: handle_read_def Let_def del: create.simps create_defs)
  then show ?thesis using out by (simp add: write_to_socket_def open_sock_def handle_write_def embed_def)
qed

text \<open>
  C5. From the signup page to the API, one request after the other: in a state that represents a
  store, with a well-formed user database outside the tree of the API, a new address and plain,
  non-empty fields, the submission of the signup page is answered with 200, the submission of
  the login page is answered with 200 and a cookie, a POST with this cookie is answered with 201
  and an ID, and a GET of this ID by any client is answered with 200 and what was posted. Neither
  the signup nor the login disturbs the store.
\<close>

theorem signup_login_post:
  assumes h: "auth_create cfg loc [] initial_profile = H_auth h" "routes_ok h" and "rs loc = Some Auth_factory"
    and signup: "match_route rs (loc @ auth_signup h @ ''-submit'') = loc"
    and login: "match_route rs (loc @ auth_login h @ ''-submit'') = loc"
    and rep: "server_rep d cfg rs E n st \<sigma>" "Suc n < id_cap" "x \<in> E" "client_profile_ok q"
    and db: "db_rep (d_fs d) (d_sha256 d) (auth_data_path h @ ''/'') (sv_world st) us"
      "outside (d_fs d) (get_root cfg ''/api'') E (auth_database cfg loc)"
    and new: "find_user e us = None" "int (length us) < int_max"
    and plain: "plain e" "plain name" "CHR ''|'' \<notin> set p" "e \<noteq> []" "p \<noteq> []"
      "\<forall>c \<in> set name \<union> set e. quotable c"
    and u: "u = \<lparr>user_id = int (length us) + 1, username = name, email = e, login_status = True\<rparr>"
  shows "\<exists>ro1 res1 ro2 res2 st3 st4 i.
     handle_read d cfg False open_sock
       (connection rs (auth_post h (auth_signup h @ ''-submit'') (name @ ''|'' @ p @ ''|'' @ e))) st = Inr ro1 \<and>
     ro_response ro1 = Some res1 \<and> res_result res1 = Status_ok \<and>
     handle_read d cfg False open_sock
       (connection rs (auth_post h (auth_login h @ ''-submit'') (''crazyCode|'' @ e @ ''|'' @ p))) (ro_state ro1) = Inr ro2 \<and>
     ro_response ro2 = Some res2 \<and> res_result res2 = Status_ok \<and>
     res_set_cookie res2 = Some (login_cookie u @ ''; Path=/'') \<and>
     server_exec d cfg rs (ro_state ro2) (u, Post x b) =
       Inr (st3, Status_created, created_body (get_root cfg ''/api'' @ ''/'' @ x) i) \<and>
     server_exec d cfg rs st3 (q, Get x i) = Inr (st4, Status_ok, b)"
proof -
  have anon: "''crazyCode'' \<notin> fst ` set (d_param_list d '';'')" using rep(1) by (simp add: server_rep_def)
  let ?h = "\<lambda>sub. h\<lparr>auth_url := loc @ sub\<rparr>"
  let ?s = "\<lparr>auth_world = sv_world st, auth_mail = sv_mail st\<rparr>"
  let ?us = "register (hash_pass (d_sha256 d)) us (e, name, p)"
  obtain w' where su: "auth_handle_request (d_fs d) (d_sha256 d) (d_smtp d) (?h (auth_signup h @ ''-submit'')) ?s
      (auth_post h (auth_signup h @ ''-submit'') (name @ ''|'' @ p @ ''|'' @ e)) new_response =
      Inr (outcome_of (?s\<lparr>auth_world := w'\<rparr>)
        (set_result Status_ok (set_content_length (write_body ''OK'' new_response))) [])"
    and db': "db_rep (d_fs d) (d_sha256 d) (auth_data_path h @ ''/'') w' ?us"
    using signup_submit_new [of "?h (auth_signup h @ ''-submit'')" "d_fs d" "d_sha256 d" ?s us e name p "d_smtp d"]
      h(2) db(1) new plain by auto
  from read_auth_request [OF h(1) anon signup assms(3) su] obtain ro1 where
    1: "handle_read d cfg False open_sock
       (connection rs (auth_post h (auth_signup h @ ''-submit'') (name @ ''|'' @ p @ ''|'' @ e))) st = Inr ro1"
      "ro_response ro1 = Some (set_result Status_ok (set_content_length (write_body ''OK'' new_response)))"
      "sv_world (ro_state ro1) = w'" by auto
  have known: "find_user e ?us =
      Some \<lparr>u_id = int (length us) + 1, u_email = e, u_name = name, u_hash = hash_pass (d_sha256 d) p\<rparr>"
    using new by (subst find_user_register) simp
  let ?s1 = "\<lparr>auth_world = sv_world (ro_state ro1), auth_mail = sv_mail (ro_state ro1)\<rparr>"
  have "auth_handle_request (d_fs d) (d_sha256 d) (d_smtp d) (?h (auth_login h @ ''-submit'')) ?s1
      (auth_post h (auth_login h @ ''-submit'') (''crazyCode|'' @ e @ ''|'' @ p)) new_response =
      Inr (outcome_of ?s1 (set_result Status_ok (set_cookie_field (login_cookie u @ ''; Path=/'') new_response)) [])"
    using login_submit_known [of "?h (auth_login h @ ''-submit'')" "d_fs d" "d_sha256 d" ?s1 ?us e _ p "d_smtp d", OF _ _ known]
      h(2) db' 1(3) plain by (simp add: plain_def login_cookie_def u)
  from read_auth_request [OF h(1) anon login assms(3) this] obtain ro2 where
    2: "handle_read d cfg False open_sock
       (connection rs (auth_post h (auth_login h @ ''-submit'') (''crazyCode|'' @ e @ ''|'' @ p))) (ro_state ro1) = Inr ro2"
      "ro_response ro2 = Some (set_result Status_ok (set_cookie_field (login_cookie u @ ''; Path=/'') new_response))" by auto
  have u_ok: "login_status u" "client_profile_ok u"
    using plain new by (auto simp: u client_profile_ok_def plain_def in_int_def int_min_def)
  have stand: "bystander d cfg rs E (auth_post h sub c)" if "match_route rs (loc @ sub) = loc" for sub c
    using that assms(3) db(2) auth_create_url(2) [OF h(1)] by (simp add: bystander_def Let_def auth_post_def)
  have "server_rep d cfg rs E n (ro_state ro2) \<sigma>"
    by (rule other_keeps [OF other_keeps [OF rep(1) stand [OF signup] 1(1)] stand [OF login] 2(1)])
  from server_store.posted_item [OF this, of "[]" u x b q] rep(2-4) u_ok obtain st3 i st4 where
    "server_exec d cfg rs (ro_state ro2) (u, Post x b) =
       Inr (st3, Status_created, created_body (get_root cfg ''/api'' @ ''/'' @ x) i)"
    "server_exec d cfg rs st3 (q, Get x i) = Inr (st4, Status_ok, b)" by auto
  with 1 2 show ?thesis by (auto simp: response_ops)
qed

section \<open>From the config file to the API\<close>

text \<open>The config has an API at \<^verbatim>\<open>/api\<close>, before any other path there, and nothing below it.\<close>

definition api_configured :: "NginxConfig \<Rightarrow> bool" where
  "api_configured cfg \<longleftrightarrow>
     (case find (\<lambda>p. p_endpoint p = ''/api'' \<and> factory_of (p_type p) \<noteq> None) (paths cfg) of
        None \<Rightarrow> False | Some p \<Rightarrow> p_type p = Ep_api) \<and>
     list_all (\<lambda>p. \<not> prefix ''/api/'' (p_endpoint p)) (paths cfg)"

lemma api_configured_routed:
  assumes "init_server fs config Map.empty w = Inr (cfg, rs, w')" and "api_configured cfg"
  shows "api_routed rs"
proof -
  note t = init_server_table [OF assms(1)]
  have "rs ''/api'' = Some Api_factory"
    using assms(2) by (auto simp: t api_configured_def split: option.splits)
  moreover have "rs c = None" if "prefix ''/api/'' c" for c
  proof -
    have "find (\<lambda>p. p_endpoint p = c \<and> factory_of (p_type p) \<noteq> None) (paths cfg) = None"
      using assms(2) that by (auto simp: api_configured_def find_None_iff list_all_iff)
    moreover have "c \<noteq> ''/''" using that by (auto simp: prefix_def)
    ultimately show ?thesis by (simp add: t)
  qed
  ultimately show ?thesis by (simp add: api_routed_def)
qed

text \<open>
  C12. From the config file to the API, on a machine with one worker thread, where events are
  handled one after the other: let \<^verbatim>\<open>main\<close> start to serve from a config with an API at
  \<^verbatim>\<open>/api\<close>, on a disk that works and with an empty root directory. Take any run of accepts and
  reads, with any number of connections, in which the requests are those of clients of the
  store or of bystanders: any requests to other locations, with user databases outside the tree
  of the API, and requests to the API that come without a login. Then the clients are answered
  as the specification of the store allows, and only a bystander can end the run with an
  exception.
\<close>

theorem started_server_implements_store:
  assumes serving: "main (d_fs d) bind_ok 1 mail w argv = Serving port cfg rs r"
    and cfg: "api_configured cfg" "get_root cfg ''/api'' = root" and disk: "storage_ok (d_fs d) root E"
    and cookies: "param_list_ok (d_param_list d)" "''crazyCode'' \<notin> fst ` set (d_param_list d '';'')"
    and empty: "fs_is_directory (d_fs d) (sv_world (sv r)) root = Inr True"
      "fs_walk (d_fs d) (sv_world (sv r)) root = Inr []"
      "\<forall>p. tree_path root E p \<and> p \<noteq> root \<longrightarrow> fs_exists (d_fs d) (sv_world (sv r)) p = Inr False"
    and traffic: "list_all (traffic_ok d cfg rs E) (served evs)" "length (item_ops (served evs)) \<le> id_cap"
    and run: "event_run d cfg rs r evs = Some (r', answers)"
  shows "\<exists>\<sigma>. store_run root Map.empty (item_ops (served evs)) answers \<sigma> \<and>
    (crashed r' \<noteq> None \<longrightarrow> reads_other (last evs))"
proof -
  from serving have "start_server (d_fs d) bind_ok 1 mail w (argv ! 1) = Inr (Serving port cfg rs r)"
    by (auto simp: main_def split: if_splits sum.splits cpp_error.splits)
  then obtain ss w' st where i: "init_server (d_fs d) \<lparr>statements = ss, paths = []\<rparr> Map.empty w = Inr (cfg, rs, w')"
    and r: "r = first_run rs st" "sv_counts st = (\<lambda>_. Map.empty)"
    by (auto simp: start_server_def elim!: result_elims split: if_splits)
  have r': "\<forall>ss \<in> set (sessions r). session_ok rs ss" "crashed r = None" "sv_counts (sv r) = (\<lambda>_. Map.empty)"
    using r by (simp_all add: first_run_def start_accept_def session_ok_def)
  from fresh_root [OF disk empty] r'(3) cfg(2) cookies api_configured_routed [OF i cfg(1)]
  have "server_rep d cfg rs E 0 (sv r) Map.empty" by (simp add: server_rep_def api_part_def)
  from event_run_refines [OF r'(1,2) this traffic(1) _ run] traffic(2) cfg(2) show ?thesis by auto
qed

section \<open>Instance\<close>

definition demo_api_routes :: routes where
  "demo_api_routes = [''/api'' \<mapsto> Api_factory, ''/'' \<mapsto> Factory_404]"

definition demo_api_config :: NginxConfig where
  "demo_api_config = \<lparr>statements = [], paths = [new_path\<lparr>p_type := Ep_api, p_endpoint := ''/api'', p_root := ''r''\<rparr>]\<rparr>"

lemma demo_match_entity: "match_route demo_api_routes (''/api/'' @ ''S'') = ''/api''"
  by (simp add: match_route_def match_loop.simps demo_api_routes_def)

lemma demo_match_item: "match_route demo_api_routes (''/api/'' @ ''S'' @ ''/'' @ to_string j) = ''/api''"
proof -
  have r: "rfind_char CHR ''/'' (''/api/S'' @ CHR ''/'' # to_string j) = Some 6"
    by (subst rfind_char_append_notin) (simp_all add: to_string_no_bar)
  have "match_loop demo_api_routes (''/api/S'' @ CHR ''/'' # to_string j) = match_loop demo_api_routes ''/api/S''"
    by (subst match_loop.simps) (subst r, simp add: demo_api_routes_def)
  then show ?thesis by (simp add: match_route_def match_loop.simps [of _ "''/api/S''"] match_loop.simps [of _ "''/api''"] demo_api_routes_def)
qed

definition demo_before :: "(mem_world, (string \<times> string) list) server_state" where
  "demo_before = demo_server_state\<lparr>sv_world := [(''r'', Dir)]\<rparr>"

definition demo_after :: "(mem_world, (string \<times> string) list) server_state" where
  "demo_after = demo_server_state\<lparr>sv_world := [(''r/S/1'', File ''new''), (''r/S'', Dir), (''r'', Dir)],
     sv_counts := (\<lambda>_. Map.empty)(''/api'' := [''S'' \<mapsto> [1]])\<rparr>"

lemma demo_load:
  "api_load mem_fs ''r'' \<lparr>world = sv_world demo_before, path_counts = sv_counts demo_before ''/api''\<rparr> =
     Inr \<lparr>world = [(''r'', Dir)], path_counts = Map.empty\<rparr>"
  by (simp add: api_load_def mem_fs_def demo_before_def demo_server_state_def)

lemma demo_reload:
  "api_load mem_fs ''r'' \<lparr>world = sv_world demo_after, path_counts = sv_counts demo_after ''/api''\<rparr> =
     Inr \<lparr>world = sv_world demo_after, path_counts = [''S'' \<mapsto> [1]]\<rparr>"
  by (simp add: api_load_def load_file_def demo_simps is_digit_def stoi_def is_space_def demo_after_def
      demo_server_state_def digits_val_def digit_val_def after_slash_def before_slash_def insert_id_def)

lemma demo_post:
  assumes "update_user demo_param_list c initial_profile = Inr (True, p)" and "login_status p"
  shows "\<exists>ro. handle_read demo_deps demo_api_config False open_sock
      (connection demo_api_routes (api_post ''S'' c ''new'')) demo_before = Inr ro \<and> ro_state ro = demo_after"
proof -
  let ?h = "\<lparr>api_location = ''/api'', api_root = ''r'', api_url = ''/api/S'', api_profile = p\<rparr>"
  let ?s = "\<lparr>world = [(''r'', Dir)], path_counts = Map.empty\<rparr>"
  have e: "ensure_directory mem_fs (world ?s) (api_root ?h @ ''/'' @ ''S'') = Inr ([(''r/S'', Dir), (''r'', Dir)], False)"
    by (simp add: ensure_directory_def mem_fs_def mem_put_def)
  have n: "get_next_id (path_counts ?s) ''S'' = Inr (1, [''S'' \<mapsto> [1]])"
    by (simp add: get_next_id_def next_id_def ids_of_def insert_at_def)
  have wr: "fs_write mem_fs [(''r/S'', Dir), (''r'', Dir)] (item_path ?h ''S'' 1) ''new'' = sv_world demo_after"
    by (simp add: demo_simps demo_after_def)
  from handle_post_result [OF e n, of "api_request Verb_post ''S'' ''new''" new_response] assms(2)
  obtain out where "api_handle_request mem_fs ?h ?s (api_request Verb_post ''S'' ''new'') new_response = Inr out"
    and o: "world (out_state out) = sv_world demo_after" "path_counts (out_state out) = [''S'' \<mapsto> [1]]"
    using wr by (auto simp: api_handle_request_entity)
  then have a: "api_handle_request (d_fs demo_deps)
      \<lparr>api_location = ''/api'', api_root = get_root demo_api_config ''/api'',
        api_url = req_target (api_post ''S'' c ''new''), api_profile = p\<rparr>
      ?s (api_post ''S'' c ''new'') new_response = Inr out"
    by (simp add: demo_deps_def demo_api_config_def get_root_def) (simp add: api_post_def)
  have m: "match_route demo_api_routes (req_target (api_post ''S'' c ''new'')) = ''/api''"
    using demo_match_entity by simp
  have r: "demo_api_routes ''/api'' = Some Api_factory" by (simp add: demo_api_routes_def)
  have l: "api_load (d_fs demo_deps) (get_root demo_api_config ''/api'')
      \<lparr>world = sv_world demo_before, path_counts = sv_counts demo_before ''/api''\<rparr> = Inr ?s"
    using demo_load by (simp add: demo_deps_def demo_api_config_def get_root_def)
  have u: "update_user (d_param_list demo_deps) (req_cookie (api_post ''S'' c ''new'')) initial_profile = Inr (True, p)"
    using assms(1) by (simp add: demo_deps_def)
  have "demo_before\<lparr>sv_world := sv_world demo_after, sv_counts := (sv_counts demo_before)(''/api'' := [''S'' \<mapsto> [1]])\<rparr> = demo_after"
    by (simp add: demo_before_def demo_after_def demo_server_state_def)
  with read_api_request [OF u m r l a] o show ?thesis by auto
qed

lemma post_with_cookie_then_get_witness:
  "\<exists>ro res ro2 res2 j.
     handle_read demo_deps demo_api_config False open_sock
       (connection demo_api_routes (api_post ''S'' (''crazyCode='' @ cookie_text 7 ''Ann'' ''a@x'') ''new'')) demo_before = Inr ro \<and>
     ro_response ro = Some res \<and> res_result res = Status_created \<and>
     handle_read demo_deps demo_api_config False open_sock
       (connection demo_api_routes (api_request Verb_get (''S'' @ ''/'' @ to_string j) [])) (ro_state ro) = Inr ro2 \<and>
     ro_response ro2 = Some res2 \<and> res_result res2 = Status_ok \<and> res_body res2 = ''new''"
proof -
  let ?c = "''crazyCode='' @ cookie_text 7 ''Ann'' ''a@x''"
  let ?w = "[(''r/S'', Dir), (''r'', Dir)]"
  have u: "in_int 7" "CHR ''|'' \<notin> set ''Ann''" "CHR ''|'' \<notin> set ''a@x''" "''a@x'' \<noteq> []"
    "\<forall>c \<in> set ''Ann'' \<union> set ''a@x''. quotable c" by (simp_all add: in_int_code quotable_def)
  from demo_post [OF cookie_profile [OF demo_param_list_ok u, of initial_profile]] obtain r0 where
    p: "handle_read demo_deps demo_api_config False open_sock
      (connection demo_api_routes (api_post ''S'' ?c ''new'')) demo_before = Inr r0" "ro_state r0 = demo_after"
    by auto
  have "fs_lawful (d_fs demo_deps)" "param_list_ok (d_param_list demo_deps)"
    using mem_fs_lawful demo_param_list_ok by (simp_all add: demo_deps_def)
  moreover have "ensure_directory (d_fs demo_deps) (sv_world demo_before) (''r'' @ ''/'' @ ''S'') = Inr (?w, False)"
    by (simp add: ensure_directory_def demo_deps_def mem_fs_def mem_put_def demo_before_def)
  moreover have "\<forall>j. fs_can_write (d_fs demo_deps) ?w (''r'' @ ''/'' @ ''S'' @ ''/'' @ to_string j)"
    by (simp add: demo_deps_def mem_fs_def)
  moreover have "''crazyCode'' \<notin> fst ` set (d_param_list demo_deps '';'')"
    by (simp add: demo_deps_def demo_param_list_def)
  ultimately have "\<exists>ro res j. handle_read demo_deps demo_api_config False open_sock
       (connection demo_api_routes (api_post ''S'' ?c ''new'')) demo_before = Inr ro \<and> ro_response ro = Some res \<and> res_result res = Status_created \<and>
     (\<forall>s2. api_load (d_fs demo_deps) ''r''
          \<lparr>world = sv_world (ro_state ro), path_counts = sv_counts (ro_state ro) ''/api''\<rparr> = Inr s2 \<longrightarrow>
        (\<exists>ro2 res2. handle_read demo_deps demo_api_config False open_sock
            (connection demo_api_routes (api_request Verb_get (''S'' @ ''/'' @ to_string j) [])) (ro_state ro) = Inr ro2 \<and>
          ro_response ro2 = Some res2 \<and> res_result res2 = Status_ok \<and> res_body res2 = ''new''))"
    using u demo_match_entity demo_match_item demo_load
    by (intro post_with_cookie_then_get [where sl = "\<lparr>world = [(''r'', Dir)], path_counts = Map.empty\<rparr>" and w = ?w])
      (simp_all add: demo_deps_def demo_api_routes_def demo_api_config_def get_root_def ids_of_def)
  with p demo_reload show ?thesis by (fastforce simp: demo_deps_def)
qed

definition demo_site_routes :: routes where
  "demo_site_routes = [''/auth'' \<mapsto> Auth_factory, ''/api'' \<mapsto> Api_factory, ''/'' \<mapsto> Factory_404]"

definition demo_site_config :: NginxConfig where
  "demo_site_config = \<lparr>statements = [], paths =
     [new_path\<lparr>p_type := Ep_auth, p_endpoint := ''/auth'', p_map := [''root'' \<mapsto> ''pages'', ''data_path'' \<mapsto> ''d'',
        ''signup'' \<mapsto> ''/signup'', ''login'' \<mapsto> ''/login'', ''logout'' \<mapsto> ''/logout'']\<rparr>,
      new_path\<lparr>p_type := Ep_api, p_endpoint := ''/api'', p_root := ''r''\<rparr>]\<rparr>"

lemma demo_site_rep: "server_rep demo_deps demo_site_config demo_site_routes {''S''} 0 demo_store_state Map.empty"
  using demo_store_env fresh_root [OF demo_store_env(1,6-8)]
  by (simp add: server_rep_def api_part_def demo_site_config_def get_root_def demo_site_routes_def api_routed_def prefix_def
      new_path_def)

lemma signup_login_post_witness:
  "\<exists>h ro1 ro2 res2 st3 st4 i. auth_create demo_site_config ''/auth'' [] initial_profile = H_auth h \<and>
     handle_read demo_deps demo_site_config False open_sock
       (connection demo_site_routes (auth_post h (auth_signup h @ ''-submit'') (''Ann'' @ ''|'' @ ''pw'' @ ''|'' @ ''a@x'')))
       demo_store_state = Inr ro1 \<and>
     handle_read demo_deps demo_site_config False open_sock
       (connection demo_site_routes (auth_post h (auth_login h @ ''-submit'') (''crazyCode|'' @ ''a@x'' @ ''|'' @ ''pw'')))
       (ro_state ro1) = Inr ro2 \<and>
     ro_response ro2 = Some res2 \<and> res_result res2 = Status_ok \<and>
     server_exec demo_deps demo_site_config demo_site_routes (ro_state ro2)
       (\<lparr>user_id = 1, username = ''Ann'', email = ''a@x'', login_status = True\<rparr>, Post ''S'' ''new'') =
       Inr (st3, Status_created, created_body (get_root demo_site_config ''/api'' @ ''/'' @ ''S'') i) \<and>
     server_exec demo_deps demo_site_config demo_site_routes st3 (demo_visitor, Get ''S'' i) = Inr (st4, Status_ok, ''new'')"
proof -
  define h where "h = demo_auth\<lparr>auth_url := [], auth_profile := initial_profile\<rparr>"
  have h: "auth_create demo_site_config ''/auth'' [] initial_profile = H_auth h"
    by (simp add: h_def demo_auth_def demo_site_config_def get_auth_path_map_def new_path_def map_get_def)
  have ok: "routes_ok h" by (simp add: h_def routes_ok_def demo_auth_def)
  have m: "match_route demo_site_routes (''/auth'' @ auth_signup h @ ''-submit'') = ''/auth''"
    "match_route demo_site_routes (''/auth'' @ auth_login h @ ''-submit'') = ''/auth''"
    by (simp_all add: h_def demo_auth_def demo_site_routes_def match_route_def match_loop.simps)
  have db: "db_rep (d_fs demo_deps) (d_sha256 demo_deps) (auth_data_path h @ ''/'') (sv_world demo_store_state) []"
    using mem_fs_lawful demo_digest_ok
    by (simp add: demo_deps_def db_rep_def db_file_def users_ok_def)
      (simp add: mem_fs_def demo_store_state_def demo_root_def h_def demo_auth_def data_path_def)
  have "outside mem_fs ''r'' {''S''} (auth_database demo_site_config ''/auth'')"
    by (rule mem_outside) (simp_all add: auth_database_def data_path_def get_auth_path_map_def map_get_def
        demo_site_config_def new_path_def)
  then have out: "outside (d_fs demo_deps) (get_root demo_site_config ''/api'') {''S''} (auth_database demo_site_config ''/auth'')"
    by (simp add: demo_deps_def demo_site_config_def get_root_def new_path_def)
  have r: "demo_site_routes ''/auth'' = Some Auth_factory" by (simp add: demo_site_routes_def)
  have n: "Suc 0 < id_cap" "''S'' \<in> {''S''}" "find_user ''a@x'' [] = None" "int (length ([] :: user list)) < int_max"
    by (simp_all add: id_cap_def int_max_def)
  have plain: "plain ''a@x''" "plain ''Ann''" "CHR ''|'' \<notin> set ''pw''" "''a@x'' \<noteq> []" "''pw'' \<noteq> []"
    "\<forall>c \<in> set ''Ann'' \<union> set ''a@x''. quotable c" by (simp_all add: plain_def quotable_def)
  have u: "\<lparr>user_id = 1, username = ''Ann'', email = ''a@x'', login_status = True\<rparr> =
    \<lparr>user_id = int (length ([] :: user list)) + 1, username = ''Ann'', email = ''a@x'', login_status = True\<rparr>" by simp
  from signup_login_post [OF h ok r m demo_site_rep n(1,2) demo_clients(2) db out n(3,4) plain u, of "''new''"] h
  show ?thesis by blast
qed

definition demo_api_text :: string where
  "demo_api_text = ''listen 8080; location /api APIHandler { root r; }''"

definition demo_api_statements :: "NginxConfigStatement list" where
  "demo_api_statements = [Statement [''listen'', ''8080''] None,
     Statement [''location'', ''/api'', ''APIHandler''] (Some [Statement [''root'', ''r''] None])]"

definition demo_api_cfg :: NginxConfig where
  "demo_api_cfg = \<lparr>statements = demo_api_statements,
     paths = [new_path\<lparr>p_type := Ep_api, p_endpoint := ''/api'', p_root := ''r''\<rparr>]\<rparr>"

definition demo_api_disk :: mem_world where
  "demo_api_disk = [(''conf'', File demo_api_text), (''r'', Dir)]"

lemma demo_api_init:
  "init_server mem_fs \<lparr>statements = demo_api_statements, paths = []\<rparr> Map.empty demo_api_disk =
     Inr (demo_api_cfg, [''/api'' \<mapsto> Api_factory, ''/'' \<mapsto> Factory_404], demo_api_disk)"
proof -
  have t: "trim_slashes ''/api'' = ''/api''" by code_simp
  have "get_paths \<lparr>statements = demo_api_statements, paths = []\<rparr> = Inr demo_api_cfg"
    by (simp add: get_paths_def demo_api_statements_def demo_api_cfg_def statement_paths_def token_at_def
        handler_paths_def child_statements_def keyword_defs t)
  moreover have "fs_exists mem_fs demo_api_disk ''r'' = Inr True" by (simp add: mem_fs_def demo_api_disk_def)
  ultimately show ?thesis
    by (simp add: init_server_def)
      (simp add: demo_api_cfg_def emplace_def api_factory_init_def get_root_def new_path_def Let_def)
qed

lemma demo_api_main:
  "main mem_fs True 1 ([] :: (string \<times> string) list) demo_api_disk [''server'', ''conf''] =
     Serving 8080 demo_api_cfg [''/api'' \<mapsto> Api_factory, ''/'' \<mapsto> Factory_404]
       (first_run [''/api'' \<mapsto> Api_factory, ''/'' \<mapsto> Factory_404]
         \<lparr>sv_world = demo_api_disk, sv_mail = [], sv_clock = 0, sv_counts = (\<lambda>_. Map.empty)\<rparr>)"
proof -
  have p: "Parse demo_api_text [] = Inr (True, demo_api_statements)"
    unfolding demo_api_text_def demo_api_statements_def by code_simp
  have "stoi ''8080'' = Inr 8080"
    by (simp add: stoi_def is_space_def is_digit_def digits_val_def digit_val_def in_int_code)
  then have l: "get_listen_port demo_api_statements = Inr 8080"
    by (simp add: get_listen_port_def port_range_def demo_api_statements_def)
  have "fs_read mem_fs demo_api_disk ''conf'' = Some demo_api_text"
    by (simp add: mem_fs_def mem_file_def demo_api_disk_def)
  then have "config_stream mem_fs demo_api_disk ''conf'' = Some demo_api_text"
    by (simp add: config_stream_def) (simp add: mem_fs_def demo_api_disk_def)
  with p l demo_api_init short_port [OF l] show ?thesis
    by (simp add: main_def start_server_def Parse_file_def)
qed

text \<open>Two clients of the API and a visitor of an unknown page, on connections that are open together.\<close>

definition demo_api_events :: "event list" where
  "demo_api_events =
     [Accept_done False None 0, Accept_done False None 1, Accept_done False None 2,
      Read_done 2 (Item (demo_user, Post ''S'' ''a'')), Read_done 0 (Other False open_sock (demo_request ''/x'' [])),
      Read_done 1 (Item (demo_visitor, Get ''S'' 1))]"

lemma demo_api_event_run:
  "map_option snd (event_run demo_deps demo_api_cfg demo_api_routes
     (first_run demo_api_routes \<lparr>sv_world = demo_api_disk, sv_mail = [], sv_clock = 0, sv_counts = (\<lambda>_. Map.empty)\<rparr>) demo_api_events) =
   Some [(Status_created, created_body ''r/S'' 1), (Status_ok, ''a'')]"
  by code_simp

lemma started_server_implements_store_witness:
  "\<exists>port cfg rs r r' \<sigma>.
     main (d_fs demo_deps) True 1 [] demo_api_disk [''server'', ''conf''] = Serving port cfg rs r \<and>
     event_run demo_deps cfg rs r demo_api_events = Some (r', [(Status_created, created_body ''r/S'' 1), (Status_ok, ''a'')]) \<and>
     store_run ''r'' Map.empty (item_ops (served demo_api_events)) [(Status_created, created_body ''r/S'' 1), (Status_ok, ''a'')] \<sigma>"
proof -
  define r where "r = first_run demo_api_routes \<lparr>sv_world = demo_api_disk, sv_mail = [] :: (string \<times> string) list, sv_clock = 0,
    sv_counts = (\<lambda>_. Map.empty)\<rparr>"
  have w: "sv_world (sv r) = demo_api_disk" by (simp add: r_def first_run_def start_accept_def)
  have m: "main (d_fs demo_deps) True 1 [] demo_api_disk [''server'', ''conf''] = Serving 8080 demo_api_cfg demo_api_routes r"
    using demo_api_main by (simp add: demo_deps_def r_def demo_api_routes_def)
  have e: "fs_is_directory (d_fs demo_deps) (sv_world (sv r)) ''r'' = Inr True"
    "fs_walk (d_fs demo_deps) (sv_world (sv r)) ''r'' = Inr []"
    unfolding w by (simp_all add: demo_deps_def mem_fs_def demo_api_disk_def)
  have f: "\<forall>p. tree_path ''r'' {''S''} p \<and> p \<noteq> ''r'' \<longrightarrow> fs_exists (d_fs demo_deps) (sv_world (sv r)) p = Inr False"
    unfolding w by (auto simp: demo_deps_def mem_fs_def demo_api_disk_def tree_path_def entity_at_def item_at_def)
  have c: "api_configured demo_api_cfg" "get_root demo_api_cfg ''/api'' = ''r''"
    by (simp_all add: api_configured_def demo_api_cfg_def get_root_def new_path_def prefix_def)
  have "match_route demo_api_routes ''/x'' = ''/''" "demo_api_routes ''/'' = Some Factory_404" by code_simp+
  then have t: "list_all (traffic_ok demo_deps demo_api_cfg demo_api_routes {''S''}) (served demo_api_events)"
    "length (item_ops (served demo_api_events)) \<le> id_cap"
    by (simp_all add: demo_api_events_def demo_clients in_int_code id_cap_def bystander_def demo_request_def)
  obtain r' where run: "event_run demo_deps demo_api_cfg demo_api_routes r demo_api_events =
      Some (r', [(Status_created, created_body ''r/S'' 1), (Status_ok, ''a'')])"
    using demo_api_event_run by (auto simp: r_def)
  from started_server_implements_store [OF m c demo_store_env(1,4,5) e f t run] m run show ?thesis by blast
qed

end
